theory Spec2Isabelle
  imports Main "HOL-Library.Char_ord" "HOL-Library.List_Lexorder"
    "HOL-Library.Product_Lexorder"
begin

section \<open>The three-field vocabulary (xstory.py)\<close>

text \<open>
  The classification tables of \<^verbatim>\<open>xstory.py\<close>. They are Python sets of strings and are
  only ever tested for membership.
\<close>

definition STAGE_VALUES :: "string set" where
  "STAGE_VALUES = {''epic'', ''concept'', ''planning'', ''implementing'', ''testing'', ''releasing''}"

definition STATUS_VALUES_HOLDS :: "string set" where
  "STATUS_VALUES_HOLDS = {''escalated'', ''paused'', ''blocked'', ''broken'', ''polish'',
     ''conflicted'', ''wishlisted'', ''queued''}"

definition TERMINUS_VALUES :: "string set" where
  "TERMINUS_VALUES = {''shipped'', ''rejected'', ''infeasible'', ''duplicative'', ''legacy'',
     ''deprecated'', ''archived''}"

text \<open>The stage vocabulary of the command-line tool \<^verbatim>\<open>update_status.py\<close>.\<close>

definition VALID_STAGES :: "string set" where
  "VALID_STAGES = {''concept'', ''approved'', ''planned'', ''active'', ''reviewing'', ''verifying'',
     ''implemented'', ''ready'', ''polish'', ''released''}"

section \<open>The node table\<close>

text \<open>
  One row of \<^verbatim>\<open>story_nodes\<close>, with the columns the modelled statements read or write.
  The column \<^verbatim>\<open>notes\<close> is the field \<open>notes_col\<close>. A nullable column is an
  \<open>option\<close> (\<open>None\<close> is SQL \<^verbatim>\<open>NULL\<close>); \<^verbatim>\<open>stage\<close> and \<^verbatim>\<open>title\<close> are declared
  \<^verbatim>\<open>NOT NULL\<close>. The field \<open>story_path\<close> holds the key of the row. The column that
  stores it is named \<^verbatim>\<open>story_path\<close> in the schema that the loader of the GUI and the
  command-line tools read, and \<^verbatim>\<open>id\<close> in the older schema of the migration scripts.
  The table is the list of its rows: \<^verbatim>\<open>UPDATE ... WHERE key = ?\<close> rewrites every row
  with that key and leaves the others, \<^verbatim>\<open>SELECT ... WHERE key = ?\<close> followed by
  \<^verbatim>\<open>fetchone()\<close> yields the first such row. A statement that names a column the
  table does not have fails with \<^verbatim>\<open>no such column\<close>; the GUI update below names the
  key column \<^verbatim>\<open>id\<close>, so the name of the key column is an argument there. Other
  failures of the storage layer (no connection, a rejected constraint) are not part of
  the model.
\<close>

record story_row =
  story_path :: string
  title :: string
  stage :: string
  status :: "string option"
  terminus :: "string option"
  notes_col :: "string option"
  human_review :: "int option"
  updated_at :: string

type_synonym story_nodes = "story_row list"

definition sql_select_one :: "story_nodes \<Rightarrow> string \<Rightarrow> story_row option" where
  "sql_select_one tbl k = find (\<lambda>r. story_path r = k) tbl"

definition sql_update :: "story_nodes \<Rightarrow> string \<Rightarrow> (story_row \<Rightarrow> story_row) \<Rightarrow> story_nodes" where
  "sql_update tbl k f = map (\<lambda>r. if story_path r = k then f r else r) tbl"

text \<open>The three state fields of a row, as a triple.\<close>

definition state_fields :: "story_row \<Rightarrow> string \<times> string option \<times> string option" where
  "state_fields r = (stage r, status r, terminus r)"

section \<open>Effective status\<close>

text \<open>
  Python's \<^verbatim>\<open>x or d\<close> on an optional string: \<^verbatim>\<open>None\<close> and the empty string are
  both false.
\<close>

definition py_truthy :: "string option \<Rightarrow> bool" where
  "py_truthy v = (case v of None \<Rightarrow> False | Some s \<Rightarrow> s \<noteq> [])"

definition py_or :: "string option \<Rightarrow> string \<Rightarrow> string" where
  "py_or v d = (case v of None \<Rightarrow> d | Some s \<Rightarrow> if s \<noteq> [] then s else d)"

text \<open>
  The column computed by the query of \<^verbatim>\<open>_load_nodes_from_db\<close>:
  \<^verbatim>\<open>COALESCE(terminus, CASE WHEN status = 'ready' THEN NULL ELSE status END, stage)\<close>.
  A \<^verbatim>\<open>NULL\<close> status makes the comparison unknown, so the \<^verbatim>\<open>ELSE\<close> branch yields
  the status itself, again \<^verbatim>\<open>NULL\<close>.
\<close>

fun coalesce :: "'a option list \<Rightarrow> 'a option" where
  "coalesce [] = None"
| "coalesce (None # vs) = coalesce vs"
| "coalesce (Some v # vs) = Some v"

definition sql_effective_status :: "story_row \<Rightarrow> string option" where
  "sql_effective_status r =
     coalesce [terminus r,
               (if status r = Some ''ready'' then None else status r),
               Some (stage r)]"

text \<open>
  The attribute of the loaded node: \<^verbatim>\<open>row['effective_status'] or 'concept'\<close>.
\<close>

definition effective_status :: "story_row \<Rightarrow> string" where
  "effective_status r = py_or (sql_effective_status r) ''concept''"

text \<open>
  The same label in \<^verbatim>\<open>list_orphans.py\<close>:
  \<^verbatim>\<open>terminus or (status if status != 'ready' else None) or stage\<close>.
\<close>

definition display_status :: "story_row \<Rightarrow> string" where
  "display_status r =
     (if py_truthy (terminus r) then the (terminus r)
      else if py_truthy (if status r \<noteq> Some ''ready'' then status r else None) then the (status r)
      else stage r)"

text \<open>
  The derived label as the specification words it: the terminus if there is one, else
  the status if it is not the neutral \<^verbatim>\<open>ready\<close>, else the stage.
\<close>

definition spec_effective_status :: "string option \<Rightarrow> string option \<Rightarrow> string \<Rightarrow> string" where
  "spec_effective_status term stat stg =
     (case term of
        Some t \<Rightarrow> t
      | None \<Rightarrow> (case stat of
                   Some s \<Rightarrow> if s \<noteq> ''ready'' then s else stg
                 | None \<Rightarrow> stg))"

section \<open>The GUI transition (xstory.py)\<close>

datatype gui_error =
    NoDatabaseLoaded
  | DatabaseError string

text \<open>
  The audit entry and the new notes text built by \<^verbatim>\<open>_update_node_status_in_db\<close>;
  \<open>timestamp\<close> is the formatted clock reading.
\<close>

definition new_note_entry :: "string \<Rightarrow> string \<Rightarrow> string \<Rightarrow> string" where
  "new_note_entry timestamp new_status note =
     (if note \<noteq> []
      then ''['' @ timestamp @ ''] Status changed to '' @ [CHR 0x27] @ new_status @ [CHR 0x27] @ '': '' @ note
      else ''['' @ timestamp @ ''] Status changed to '' @ [CHR 0x27] @ new_status @ [CHR 0x27])"

definition updated_notes :: "string \<Rightarrow> string \<Rightarrow> string" where
  "updated_notes current_notes entry =
     (if current_notes \<noteq> [] then current_notes @ [CHR 0x0A] @ entry else entry)"

text \<open>
  \<^verbatim>\<open>_update_node_status_in_db\<close>. The first argument is the name of the key column
  of \<^verbatim>\<open>story_nodes\<close> in the database at hand, the second the loaded database (\<open>None\<close>
  when no path is set); the result is the outcome shown to the user (an error dialog or
  the status-bar message) and the database afterwards. The statements select and update
  \<^verbatim>\<open>WHERE id = ?\<close>: when the key column has another name the first of them, the
  \<^verbatim>\<open>SELECT\<close>, raises \<^verbatim>\<open>no such column: id\<close>. That error, like the
  \<^verbatim>\<open>ValueError\<close> of the last branch, is caught by the surrounding handler, which
  reports it, and nothing has been written at that point.
\<close>

definition update_node_status_in_db ::
  "string \<Rightarrow> story_nodes option \<Rightarrow> string \<Rightarrow> string \<Rightarrow> string \<Rightarrow> string \<Rightarrow> string
     \<Rightarrow> (gui_error + string) \<times> story_nodes option" where
  "update_node_status_in_db key_column db node_id new_status note timestamp now =
     (case db of
        None \<Rightarrow> (Inl NoDatabaseLoaded, None)
      | Some tbl \<Rightarrow>
          if key_column \<noteq> ''id'' then
            (Inl (DatabaseError (''Failed to update status:'' @ [CHR 0x0A]
                    @ ''no such column: id'')), Some tbl)
          else
          (let current_notes =
                 (case sql_select_one tbl node_id of
                    None \<Rightarrow> []
                  | Some row \<Rightarrow> py_or (notes_col row) []);
               un = updated_notes current_notes (new_note_entry timestamp new_status note);
               msg = ''Updated '' @ [CHR 0x27] @ node_id @ [CHR 0x27] @ '' status to ''
                       @ [CHR 0x27] @ new_status @ [CHR 0x27]
           in if new_status \<in> TERMINUS_VALUES then
                (Inr msg, Some (sql_update tbl node_id
                   (\<lambda>r. r\<lparr>terminus := Some new_status, status := Some ''ready'',
                           notes_col := Some un, updated_at := now\<rparr>)))
              else if new_status \<in> STATUS_VALUES_HOLDS then
                (Inr msg, Some (sql_update tbl node_id
                   (\<lambda>r. r\<lparr>status := Some new_status, terminus := None,
                           notes_col := Some un, updated_at := now\<rparr>)))
              else if new_status \<in> STAGE_VALUES then
                (Inr msg, Some (sql_update tbl node_id
                   (\<lambda>r. r\<lparr>stage := new_status, status := Some ''ready'', terminus := None,
                           notes_col := Some un, updated_at := now\<rparr>)))
              else
                (Inl (DatabaseError (''Failed to update status:'' @ [CHR 0x0A]
                        @ ''Unknown status value: '' @ new_status)), Some tbl)))"

section \<open>The command-line stage update (update_status.py)\<close>

datatype cli_error =
    InvalidStage string
  | StoryNotFound string

record cli_success =
  cs_story_id :: string
  cs_old_stage :: string
  cs_new_stage :: string
  cs_hold_set :: bool
  cs_notes_added :: bool

text \<open>
  \<^verbatim>\<open>update_status(story_id, new_stage, notes, hold)\<close>: the returned dictionary and the
  table afterwards. \<open>note\<close> is \<open>None\<close> when the argument is absent.
\<close>

definition update_status ::
  "story_nodes \<Rightarrow> string \<Rightarrow> string \<Rightarrow> string option \<Rightarrow> bool \<Rightarrow> string \<Rightarrow> string
     \<Rightarrow> (cli_error + cli_success) \<times> story_nodes" where
  "update_status tbl story_id new_stage note hold timestamp now =
     (if new_stage \<notin> VALID_STAGES then (Inl (InvalidStage new_stage), tbl)
      else case sql_select_one tbl story_id of
        None \<Rightarrow> (Inl (StoryNotFound story_id), tbl)
      | Some row \<Rightarrow>
          (let old_stage = stage row;
               existing_notes = py_or (notes_col row) [];
               new_notes =
                 (if py_truthy note
                  then existing_notes @ (if existing_notes \<noteq> [] then [CHR 0x0A] else [])
                         @ ''[Verification '' @ timestamp @ ''] '' @ the note
                  else existing_notes);
               tbl' =
                 (if hold
                  then sql_update tbl story_id
                         (\<lambda>r. r\<lparr>status := Some ''escalated'', human_review := Some 1,
                                 notes_col := Some new_notes, updated_at := now\<rparr>)
                  else sql_update tbl story_id
                         (\<lambda>r. r\<lparr>stage := new_stage, status := Some ''ready'',
                                 human_review := Some 0,
                                 notes_col := Some new_notes, updated_at := now\<rparr>))
           in (Inr \<lparr>cs_story_id = story_id, cs_old_stage = old_stage,
                     cs_new_stage = (if \<not> hold then new_stage else old_stage),
                     cs_hold_set = hold, cs_notes_added = (note \<noteq> None)\<rparr>, tbl')))"

section \<open>The notes dialog (xstory.py)\<close>

text \<open>
  The characters \<^verbatim>\<open>str.strip()\<close> removes, among the ASCII ones. Strings are byte
  lists here, so the white space outside ASCII that Python also strips is not covered.
\<close>

definition py_isspace :: "char \<Rightarrow> bool" where
  "py_isspace c = (c \<in> {CHR 0x09, CHR 0x0A, CHR 0x0B, CHR 0x0C, CHR 0x0D,
                          CHR 0x1C, CHR 0x1D, CHR 0x1E, CHR 0x1F, CHR 0x20})"

definition py_strip :: "string \<Rightarrow> string" where
  "py_strip s = rev (dropWhile py_isspace (rev (dropWhile py_isspace s)))"

text \<open>
  What the user does with the modal \<^verbatim>\<open>StatusChangeDialog\<close>: a sequence of button
  presses, each \<^verbatim>\<open>OK\<close> with the text then in the notes box. A sequence that
  ends without an accepted \<^verbatim>\<open>OK\<close> stands for closing the dialog.
\<close>

datatype dialog_event = ClickOk string | ClickCancel

datatype dialog_code = Accepted | Rejected

text \<open>
  \<^verbatim>\<open>_on_confirm\<close>: either the warning shown (the dialog stays open) or the notes
  stored in \<^verbatim>\<open>result_notes\<close> (the dialog is accepted).
\<close>

definition on_confirm :: "bool \<Rightarrow> string \<Rightarrow> string \<Rightarrow> string + string" where
  "on_confirm mandatory new_status txt =
     (let notes = py_strip txt
      in if mandatory \<and> notes = []
         then Inl (''Notes are required when changing status to '' @ [CHR 0x27] @ new_status
                     @ [CHR 0x27] @ ''.'')
         else Inr notes)"

text \<open>
  \<^verbatim>\<open>dialog.exec()\<close> followed by \<^verbatim>\<open>get_notes()\<close>: the warnings shown, the dialog
  code and \<^verbatim>\<open>result_notes\<close>.
\<close>

fun dialog_exec :: "bool \<Rightarrow> string \<Rightarrow> dialog_event list \<Rightarrow> string list \<times> dialog_code \<times> string option" where
  "dialog_exec mandatory new_status [] = ([], Rejected, None)"
| "dialog_exec mandatory new_status (ClickCancel # es) = ([], Rejected, None)"
| "dialog_exec mandatory new_status (ClickOk txt # es) =
     (case on_confirm mandatory new_status txt of
        Inl warning \<Rightarrow>
          (case dialog_exec mandatory new_status es of
             (ws, code, res) \<Rightarrow> (warning # ws, code, res))
      | Inr notes \<Rightarrow> ([], Accepted, Some notes))"

text \<open>
  \<^verbatim>\<open>_change_node_status\<close>: \<open>key_column\<close> is as above, \<open>nodes\<close> is the dictionary
  of loaded nodes. The result is the warnings shown, the outcome of the database update
  when one was made, and the database afterwards.
\<close>

definition change_node_status ::
  "string \<Rightarrow> (string \<Rightarrow> 'n option) \<Rightarrow> story_nodes option \<Rightarrow> string \<Rightarrow> string
     \<Rightarrow> dialog_event list \<Rightarrow> string \<Rightarrow> string
     \<Rightarrow> string list \<times> (gui_error + string) option \<times> story_nodes option" where
  "change_node_status key_column nodes db node_id new_status events timestamp now =
     (case nodes node_id of
        None \<Rightarrow> ([], None, db)
      | Some node \<Rightarrow>
          (let mandatory = (new_status = ''polish'')
           in case dialog_exec mandatory new_status events of
                (ws, code, res) \<Rightarrow>
                  if code = Accepted
                  then (case update_node_status_in_db key_column db node_id new_status
                               (py_or res []) timestamp now of
                          (out, db') \<Rightarrow> (ws, Some out, db'))
                  else (ws, None, db)))"

section \<open>The closure table and the orphan listing (list_orphans.py)\<close>

text \<open>
  One row of \<^verbatim>\<open>story_paths\<close>: an (ancestor, descendant) pair and its depth, 0 for
  the pair of a node with itself.
\<close>

record path_row =
  ancestor_id :: string
  descendant_id :: string
  depth :: int

type_synonym story_paths = "path_row list"

text \<open>
  The query of \<^verbatim>\<open>list_orphans.py\<close>: the node rows other than \<^verbatim>\<open>root\<close> for which
  no row of \<^verbatim>\<open>story_paths\<close> has them as descendant, ordered by key. Text is
  compared byte by byte, a proper prefix first, which is the order of \<open>string\<close>.
\<close>

definition orphans_query :: "story_nodes \<Rightarrow> story_paths \<Rightarrow> story_row list" where
  "orphans_query nodes paths =
     sort_key story_path
       (filter (\<lambda>sn. story_path sn \<noteq> ''root''
                      \<and> \<not> list_ex (\<lambda>sp. descendant_id sp = story_path sn) paths) nodes)"

text \<open>What \<^verbatim>\<open>main\<close> prints, line by line.\<close>

datatype out_line =
    NoOrphansFound
  | FoundOrphans nat
  | IdLine string
  | DetailLine string string string

text \<open>
  \<^verbatim>\<open>main\<close> of \<^verbatim>\<open>list_orphans.py\<close>: the lines printed and the value returned, which
  is the exit code of the process. \<open>ids_only\<close> is the flag \<^verbatim>\<open>--ids-only\<close>.
\<close>

definition list_orphans_main :: "bool \<Rightarrow> story_nodes \<Rightarrow> story_paths \<Rightarrow> out_line list \<times> int" where
  "list_orphans_main ids_only nodes paths =
     (let orphans = orphans_query nodes paths
      in if orphans = [] then ((if \<not> ids_only then [NoOrphansFound] else []), 0)
         else if ids_only then (map (\<lambda>r. IdLine (story_path r)) orphans, 0)
         else (FoundOrphans (length orphans)
                 # map (\<lambda>r. DetailLine (story_path r) (display_status r) (title r)) orphans, 0))"

text \<open>
  An orphan as the specification words it: a node other than the root with no closure
  row in which it is the descendant of an ancestor other than itself.
\<close>

definition spec_orphan :: "story_paths \<Rightarrow> string \<Rightarrow> bool" where
  "spec_orphan paths k =
     (k \<noteq> ''root'' \<and> \<not> list_ex (\<lambda>sp. descendant_id sp = k \<and> ancestor_id sp \<noteq> k) paths)"

section \<open>The health report (tree_health.py)\<close>

text \<open>
  \<^verbatim>\<open>validate_tree_structure\<close> is imported from a module outside the sources at hand;
  its result, a dictionary from issue category to the list of issues found, is the
  argument \<open>issues\<close>. The statistics of the report are queries whose results are only
  printed; they are left out.
\<close>

definition total_issues :: "(string \<times> 'i list) list \<Rightarrow> nat" where
  "total_issues issues = sum_list (map (\<lambda>(category, items). length items) issues)"

text \<open>
  \<^verbatim>\<open>main\<close> of \<^verbatim>\<open>tree_health.py\<close>: the issue count and health status of the report
  and the value returned, the exit code of the process.
\<close>

definition tree_health_main :: "(string \<times> 'i list) list \<Rightarrow> (nat \<times> string) \<times> int" where
  "tree_health_main issues =
     (let total = total_issues issues
      in ((total, if total = 0 then ''healthy'' else ''issues_found''),
          if total = 0 then 0 else 1))"

section \<open>The sort key of node ids (xstory.py)\<close>

text \<open>
  Python's \<^verbatim>\<open>int(s)\<close> on a string, as CPython parses a decimal literal: white space
  at both ends is skipped, then comes an optional sign, then digits, the first character
  being a digit and underscores allowed singly between digits; anything else raises
  \<^verbatim>\<open>ValueError\<close>, here \<open>None\<close>. Since CPython 3.11 a literal of more than
  \<^verbatim>\<open>sys.get_int_max_str_digits()\<close> digits, 4300 unless configured otherwise, raises
  the same error. Strings are byte lists, so the digits and spaces outside ASCII that
  Python also accepts are not covered.
\<close>

definition int_isspace :: "char \<Rightarrow> bool" where
  "int_isspace c = (c \<in> {CHR 0x09, CHR 0x0A, CHR 0x0B, CHR 0x0C, CHR 0x0D, CHR 0x20})"

definition is_digit :: "char \<Rightarrow> bool" where
  "is_digit c = (CHR ''0'' \<le> c \<and> c \<le> CHR ''9'')"

definition digit_val :: "char \<Rightarrow> nat" where
  "digit_val c = of_char c - of_char (CHR ''0'')"

definition int_max_str_digits :: nat where
  "int_max_str_digits = 4300"

text \<open>
  The scan over digits and underscores: \<open>prev\<close> is the character before, \<open>ds\<close> the
  digits read so far. It stops at the first other character and fails on a doubled or
  a trailing underscore.
\<close>

fun scan_digits :: "char \<Rightarrow> nat list \<Rightarrow> string \<Rightarrow> (nat list \<times> string) option" where
  "scan_digits prev ds [] = (if prev = CHR ''_'' then None else Some (ds, []))"
| "scan_digits prev ds (c # cs) =
     (if c = CHR ''_'' then (if prev = CHR ''_'' then None else scan_digits c ds cs)
      else if is_digit c then scan_digits c (ds @ [digit_val c]) cs
      else if prev = CHR ''_'' then None
      else Some (ds, c # cs))"

definition decimal :: "nat list \<Rightarrow> nat" where
  "decimal ds = foldl (\<lambda>a d. 10 * a + d) 0 ds"

definition py_int :: "string \<Rightarrow> int option" where
  "py_int s =
     (let s1 = dropWhile int_isspace s;
          negative = (s1 \<noteq> [] \<and> hd s1 = CHR ''-'');
          s2 = (if s1 \<noteq> [] \<and> (hd s1 = CHR ''+'' \<or> hd s1 = CHR ''-'') then tl s1 else s1)
      in if s2 = [] \<or> \<not> is_digit (hd s2) then None
         else case scan_digits (CHR 0x00) [] s2 of
                None \<Rightarrow> None
              | Some (ds, rest) \<Rightarrow>
                  if int_max_str_digits < length ds then None
                  else if dropWhile int_isspace rest \<noteq> [] then None
                  else Some (if negative then - int (decimal ds) else int (decimal ds)))"

text \<open>\<^verbatim>\<open>s.split('.')\<close>: the pieces between the separators, at least one.\<close>

fun split_on :: "char \<Rightarrow> string \<Rightarrow> string list" where
  "split_on sep [] = [[]]"
| "split_on sep (c # cs) =
     (if c = sep then [] # split_on sep cs
      else case split_on sep cs of
             p # ps \<Rightarrow> (c # p) # ps
           | [] \<Rightarrow> [[c]])"

text \<open>
  The elements of the key tuples, integers and strings, and Python's \<^verbatim>\<open><\<close> on
  tuples: the first position where the two differ decides, a proper prefix is smaller,
  and comparing an integer with a string raises \<^verbatim>\<open>TypeError\<close>, here \<open>None\<close>.
\<close>

datatype key_item = KInt int | KStr string

fun item_lt :: "key_item \<Rightarrow> key_item \<Rightarrow> bool option" where
  "item_lt (KInt a) (KInt b) = Some (a < b)"
| "item_lt (KStr a) (KStr b) = Some (a < b)"
| "item_lt (KInt a) (KStr b) = None"
| "item_lt (KStr a) (KInt b) = None"

fun tuple_lt :: "key_item list \<Rightarrow> key_item list \<Rightarrow> bool option" where
  "tuple_lt [] [] = Some False"
| "tuple_lt [] (y # ys) = Some True"
| "tuple_lt (x # xs) [] = Some False"
| "tuple_lt (x # xs) (y # ys) = (if x = y then tuple_lt xs ys else item_lt x y)"

text \<open>
  \<^verbatim>\<open>_sort_key\<close>: \<^verbatim>\<open>(0,)\<close> for the root, \<^verbatim>\<open>(1, n1, ..., nk)\<close> when every piece
  of the id is an integer literal, \<^verbatim>\<open>(2, node_id)\<close> when \<^verbatim>\<open>int\<close> raises on one.
\<close>

fun int_all :: "string list \<Rightarrow> int list option" where
  "int_all [] = Some []"
| "int_all (p # ps) =
     (case py_int p of
        None \<Rightarrow> None
      | Some n \<Rightarrow> (case int_all ps of None \<Rightarrow> None | Some ns \<Rightarrow> Some (n # ns)))"

definition sort_key_id :: "string \<Rightarrow> key_item list" where
  "sort_key_id node_id =
     (if node_id = ''root'' then [KInt 0]
      else case int_all (split_on (CHR ''.'') node_id) of
             Some ns \<Rightarrow> KInt 1 # map KInt ns
           | None \<Rightarrow> [KInt 2, KStr node_id])"

text \<open>
  \<^verbatim>\<open>xs.sort(key=...)\<close> with the key above: a stable sort that compares keys with
  \<^verbatim>\<open><\<close> only. It is modelled by insertion from the right, each element going before
  the first one whose key is not smaller than its own.
\<close>

definition id_lt :: "string \<Rightarrow> string \<Rightarrow> bool" where
  "id_lt a b = (tuple_lt (sort_key_id a) (sort_key_id b) = Some True)"

fun insort_id :: "('a \<Rightarrow> string) \<Rightarrow> 'a \<Rightarrow> 'a list \<Rightarrow> 'a list" where
  "insort_id f x [] = [x]"
| "insort_id f x (y # ys) =
     (if id_lt (f y) (f x) then y # insort_id f x ys else x # y # ys)"

definition sort_by_id :: "('a \<Rightarrow> string) \<Rightarrow> 'a list \<Rightarrow> 'a list" where
  "sort_by_id f xs = foldr (insort_id f) xs []"

text \<open>
  The order of ids as the specification words it: the root first, then the ids whose
  pieces are all integers by the tuple of these integers, then the other ids in
  lexicographic order. Triples are compared lexicographically.
\<close>

definition spec_rank :: "string \<Rightarrow> nat \<times> int list \<times> string" where
  "spec_rank a =
     (if a = ''root'' then (0, [], [])
      else case int_all (split_on (CHR ''.'') a) of
             Some ns \<Rightarrow> (1, ns, [])
           | None \<Rightarrow> (2, [], a))"

section \<open>The loaded nodes and the tree filter (xstory.py)\<close>

text \<open>
  The display orders of the three vocabularies; \<^verbatim>\<open>ready\<close> and \<^verbatim>\<open>active\<close> stand for
  a node without hold and without terminus.
\<close>

definition STAGE_ORDER :: "string list" where
  "STAGE_ORDER = [''epic'', ''concept'', ''planning'', ''implementing'', ''testing'', ''releasing'']"

definition STATUS_ORDER_HOLDS :: "string list" where
  "STATUS_ORDER_HOLDS = [''ready'', ''broken'', ''conflicted'', ''blocked'', ''escalated'',
     ''paused'', ''polish'', ''queued'', ''wishlisted'']"

definition TERMINUS_ORDER :: "string list" where
  "TERMINUS_ORDER = [''active'', ''shipped'', ''infeasible'', ''rejected'', ''duplicative'',
     ''deprecated'', ''legacy'', ''archived'']"

text \<open>
  The attributes of a \<^verbatim>\<open>StoryNode\<close> that the filter reads, \<^verbatim>\<open>id\<close>,
  \<^verbatim>\<open>parent_id\<close>, \<^verbatim>\<open>stage\<close>, \<^verbatim>\<open>status\<close> and \<^verbatim>\<open>terminus\<close>, as the
  fields \<open>sn_id\<close> to \<open>sn_terminus\<close>. The dictionary \<^verbatim>\<open>self.nodes\<close> is the list
  of its values in insertion order; each node is stored under its own id.
\<close>

record story_node =
  sn_id :: string
  sn_parent_id :: "string option"
  sn_stage :: string
  sn_status :: string
  sn_terminus :: "string option"

definition nodes_get :: "story_node list \<Rightarrow> string \<Rightarrow> story_node option" where
  "nodes_get nodes k = find (\<lambda>n. sn_id n = k) nodes"

text \<open>
  The loop of \<^verbatim>\<open>_get_ancestors\<close>: \<open>node\<close> is the loop variable, \<open>ancestors\<close> the
  set built so far. The loop follows the parent ids for as long as they are non-empty
  and name a loaded node, so on a cycle of parent ids it never returns: the value is
  then \<open>None\<close>.
\<close>

partial_function (option) ancestors_loop ::
  "story_node list \<Rightarrow> story_node option \<Rightarrow> string set \<Rightarrow> string set option" where
  "ancestors_loop nodes node ancestors =
     (case node of
        None \<Rightarrow> Some ancestors
      | Some n \<Rightarrow>
          if py_truthy (sn_parent_id n)
          then ancestors_loop nodes (nodes_get nodes (the (sn_parent_id n)))
                 (insert (the (sn_parent_id n)) ancestors)
          else Some ancestors)"

declare ancestors_loop.simps [code]

definition get_ancestors :: "story_node list \<Rightarrow> string \<Rightarrow> string set option" where
  "get_ancestors nodes k = ancestors_loop nodes (nodes_get nodes k) {}"

text \<open>
  The check boxes of the filter panel, by name, with their checked state; the three
  sets of checked names that \<^verbatim>\<open>_apply_filters\<close> collects from them.
\<close>

type_synonym checkboxes = "string \<Rightarrow> bool option"

definition checked_in :: "checkboxes \<Rightarrow> string list \<Rightarrow> string set" where
  "checked_in cbs order = set (filter (\<lambda>s. cbs s = Some True) order)"

text \<open>\<^verbatim>\<open>node_matches_filter\<close>: a checked stage, and a checked status or a checked terminus.\<close>

definition node_matches_filter :: "checkboxes \<Rightarrow> story_node \<Rightarrow> bool" where
  "node_matches_filter cbs node =
     (let checked_stages = checked_in cbs STAGE_ORDER;
          checked_statuses = checked_in cbs STATUS_ORDER_HOLDS;
          checked_termini = checked_in cbs TERMINUS_ORDER;
          show_ready = (''ready'' \<in> checked_statuses);
          show_active = (''active'' \<in> checked_termini)
      in if sn_stage node \<notin> checked_stages then False
         else
           (let status_ok =
                  (if sn_status node \<noteq> [] \<and> sn_status node \<noteq> ''ready''
                        \<and> sn_status node \<in> checked_statuses then True
                   else if show_ready \<and> (sn_status node = [] \<or> sn_status node = ''ready'')
                   then True
                   else False);
                term_ok =
                  (if py_truthy (sn_terminus node) \<and> the (sn_terminus node) \<in> checked_termini
                   then True
                   else if show_active \<and> \<not> py_truthy (sn_terminus node) then True
                   else False)
            in status_ok \<or> term_ok))"

text \<open>
  The second step of \<^verbatim>\<open>_apply_filters\<close>: the union of the ancestor sets of the
  matching ids.
\<close>

fun collect_ancestors :: "story_node list \<Rightarrow> string list \<Rightarrow> string set option" where
  "collect_ancestors nodes [] = Some {}"
| "collect_ancestors nodes (k # ks) =
     (case get_ancestors nodes k of
        None \<Rightarrow> None
      | Some a \<Rightarrow> (case collect_ancestors nodes ks of
                     None \<Rightarrow> None
                   | Some b \<Rightarrow> Some (a \<union> b)))"

text \<open>
  The sets computed by \<^verbatim>\<open>_apply_filters\<close>: the ids to show and, among them, the ids
  shown faded.
\<close>

record filter_sets =
  visible_nodes :: "string set"
  faded_nodes :: "string set"

definition matching_ids :: "checkboxes \<Rightarrow> story_node list \<Rightarrow> string list" where
  "matching_ids cbs nodes = map sn_id (filter (node_matches_filter cbs) nodes)"

definition filter_sets_of :: "checkboxes \<Rightarrow> story_node list \<Rightarrow> filter_sets option" where
  "filter_sets_of cbs nodes =
     (let matching_nodes = set (matching_ids cbs nodes)
      in case collect_ancestors nodes (matching_ids cbs nodes) of
           None \<Rightarrow> None
         | Some ancestor_nodes \<Rightarrow>
             Some \<lparr>visible_nodes = matching_nodes \<union> ancestor_nodes,
                   faded_nodes = ancestor_nodes - matching_nodes\<rparr>)"

text \<open>
  The parent relation on ids that the loaded nodes define: the non-empty parent id of
  the node stored under an id.
\<close>

definition parent_rel :: "story_node list \<Rightarrow> (string \<times> string) set" where
  "parent_rel nodes =
     {(c, p). \<exists>n. nodes_get nodes c = Some n \<and> sn_parent_id n = Some p \<and> p \<noteq> []}"

text \<open>
  The children list of a loaded node, as \<^verbatim>\<open>_load_nodes_from_db\<close> builds it: every
  node whose non-empty parent id is the key of this node, in dictionary order, then
  sorted by the key of the id.
\<close>

definition children_of :: "story_node list \<Rightarrow> story_node \<Rightarrow> story_node list" where
  "children_of nodes node =
     sort_by_id sn_id
       (filter (\<lambda>c. py_truthy (sn_parent_id c)
                     \<and> nodes_get nodes (the (sn_parent_id c)) = Some node) nodes)"

text \<open>
  An item of the tree widget: the id shown, whether it is marked faded, and its child
  items.
\<close>

datatype tree_item = TreeItem string bool "tree_item list"

fun item_ids :: "tree_item \<Rightarrow> string set" where
  "item_ids (TreeItem k fd subs) = insert k (\<Union> (item_ids ` set subs))"

fun item_faded_ids :: "tree_item \<Rightarrow> string set" where
  "item_faded_ids (TreeItem k fd subs) =
     (if fd then {k} else {}) \<union> \<Union> (item_faded_ids ` set subs)"

text \<open>
  \<^verbatim>\<open>_add_filtered_node\<close>: the items added for a node, none when the node is not
  visible, else the node's item above the items of its visible children. The first
  argument bounds the depth of the recursion; the result is \<open>None\<close> when the bound is
  reached.
\<close>

fun add_filtered_node ::
  "nat \<Rightarrow> story_node list \<Rightarrow> string set \<Rightarrow> string set \<Rightarrow> story_node \<Rightarrow> tree_item list option" where
  "add_filtered_node 0 nodes visible faded node = None"
| "add_filtered_node (Suc fuel) nodes visible faded node =
     (if sn_id node \<notin> visible then Some []
      else
        case those (map (add_filtered_node fuel nodes visible faded)
                      (sort_by_id sn_id
                         (filter (\<lambda>c. sn_id c \<in> visible) (children_of nodes node)))) of
          None \<Rightarrow> None
        | Some subs \<Rightarrow> Some [TreeItem (sn_id node) (sn_id node \<in> faded) (concat subs)])"

text \<open>
  \<^verbatim>\<open>_apply_filters\<close>: the two sets, and the tree built from the visible nodes that
  have no parent among the loaded nodes.
\<close>

definition apply_filters ::
  "nat \<Rightarrow> checkboxes \<Rightarrow> story_node list \<Rightarrow> (filter_sets \<times> tree_item list) option" where
  "apply_filters fuel cbs nodes =
     (case filter_sets_of cbs nodes of
        None \<Rightarrow> None
      | Some fs \<Rightarrow>
          (let root_nodes =
                 sort_by_id sn_id
                   (filter (\<lambda>n. (\<not> py_truthy (sn_parent_id n)
                                    \<or> nodes_get nodes (the (sn_parent_id n)) = None)
                                \<and> sn_id n \<in> visible_nodes fs) nodes)
           in case those (map (add_filtered_node fuel nodes (visible_nodes fs) (faded_nodes fs))
                            root_nodes) of
                None \<Rightarrow> None
              | Some items \<Rightarrow> Some (fs, concat items)))"

text \<open>
  A rank on ids that decreases from every node to its parent; one exists exactly when
  the parent ids of the loaded nodes form no cycle.
\<close>

definition ranked :: "(string \<Rightarrow> nat) \<Rightarrow> story_node list \<Rightarrow> bool" where
  "ranked f nodes =
     list_all (\<lambda>n. py_truthy (sn_parent_id n)
                      \<and> nodes_get nodes (the (sn_parent_id n)) \<noteq> None
                    \<longrightarrow> f (the (sn_parent_id n)) < f (sn_id n)) nodes"

text \<open>
  A small tree of loaded nodes: the root, two children and a grandchild; only the
  grandchild is in testing.
\<close>

definition gui_nodes :: "story_node list" where
  "gui_nodes =
     [\<lparr>sn_id = ''1'', sn_parent_id = Some ''root'', sn_stage = ''concept'',
        sn_status = ''ready'', sn_terminus = None\<rparr>,
      \<lparr>sn_id = ''1.1'', sn_parent_id = Some ''1'', sn_stage = ''testing'',
        sn_status = ''ready'', sn_terminus = None\<rparr>,
      \<lparr>sn_id = ''2'', sn_parent_id = Some ''root'', sn_stage = ''concept'',
        sn_status = ''ready'', sn_terminus = None\<rparr>,
      \<lparr>sn_id = ''root'', sn_parent_id = None, sn_stage = ''epic'',
        sn_status = ''ready'', sn_terminus = None\<rparr>]"

definition testing_only :: checkboxes where
  "testing_only = [''testing'' \<mapsto> True, ''ready'' \<mapsto> True, ''active'' \<mapsto> True,
     ''concept'' \<mapsto> False]"

definition gui_rank :: "string \<Rightarrow> nat" where
  "gui_rank k = (if k = ''root'' then 0 else length k)"

section \<open>The row rewrite of a recognised target\<close>

text \<open>
  Two abbreviations for the proofs about \<open>update_node_status_in_db\<close>: the notes text
  it reads before writing, and the rewrite its \<^verbatim>\<open>UPDATE\<close> statement applies to a row
  for a target of one of the three tables.
\<close>

definition current_notes :: "story_nodes \<Rightarrow> string \<Rightarrow> string" where
  "current_notes tbl k =
     (case sql_select_one tbl k of None \<Rightarrow> [] | Some row \<Rightarrow> py_or (notes_col row) [])"

definition apply_target :: "string \<Rightarrow> string \<Rightarrow> string \<Rightarrow> story_row \<Rightarrow> story_row" where
  "apply_target t un now r =
     (if t \<in> TERMINUS_VALUES
      then r\<lparr>terminus := Some t, status := Some ''ready'', notes_col := Some un,
              updated_at := now\<rparr>
      else if t \<in> STATUS_VALUES_HOLDS
      then r\<lparr>status := Some t, terminus := None, notes_col := Some un, updated_at := now\<rparr>
      else r\<lparr>stage := t, status := Some ''ready'', terminus := None, notes_col := Some un,
              updated_at := now\<rparr>)"

section \<open>Example rows\<close>

text \<open>
  Rows used in the examples: the scenario nodes of the specification, and a shipped
  story.
\<close>

definition testing_row :: story_row where
  "testing_row = \<lparr>story_path = ''8.4'', title = ''Export'', stage = ''testing'',
     status = Some ''ready'', terminus = None, notes_col = None, human_review = Some 0,
     updated_at = ''2025-01-01T09:00:00''\<rparr>"

definition shipped_row :: story_row where
  "shipped_row = testing_row\<lparr>terminus := Some ''shipped''\<rparr>"

definition escalated_concept_row :: story_row where
  "escalated_concept_row = \<lparr>story_path = ''3.1'', title = ''Import'', stage = ''concept'',
     status = Some ''escalated'', terminus = None, notes_col = Some ''first draft'',
     human_review = Some 1, updated_at = ''2025-01-01T09:00:00''\<rparr>"

text \<open>
  A tree of three nodes, \<^verbatim>\<open>root\<close>, \<^verbatim>\<open>1\<close> and \<^verbatim>\<open>1.1\<close>. Its closure table lacks the
  one row that makes \<^verbatim>\<open>root\<close> the parent of the mid-level node \<^verbatim>\<open>1\<close>.
\<close>

definition tree_nodes :: story_nodes where
  "tree_nodes =
     [testing_row\<lparr>story_path := ''root'', title := ''Root'', stage := ''epic''\<rparr>,
      testing_row\<lparr>story_path := ''1'', title := ''Mid''\<rparr>,
      testing_row\<lparr>story_path := ''1.1'', title := ''Leaf''\<rparr>]"

definition tree_paths_missing_one :: story_paths where
  "tree_paths_missing_one =
     [\<lparr>ancestor_id = ''root'', descendant_id = ''root'', depth = 0\<rparr>,
      \<lparr>ancestor_id = ''1'', descendant_id = ''1'', depth = 0\<rparr>,
      \<lparr>ancestor_id = ''1.1'', descendant_id = ''1.1'', depth = 0\<rparr>,
      \<lparr>ancestor_id = ''1'', descendant_id = ''1.1'', depth = 1\<rparr>,
      \<lparr>ancestor_id = ''root'', descendant_id = ''1.1'', depth = 2\<rparr>]"

text \<open>The same tree with every closure row of the node \<^verbatim>\<open>1\<close> as descendant missing.\<close>

definition tree_paths_missing_all :: story_paths where
  "tree_paths_missing_all =
     [\<lparr>ancestor_id = ''root'', descendant_id = ''root'', depth = 0\<rparr>,
      \<lparr>ancestor_id = ''1.1'', descendant_id = ''1.1'', depth = 0\<rparr>,
      \<lparr>ancestor_id = ''1'', descendant_id = ''1.1'', depth = 1\<rparr>,
      \<lparr>ancestor_id = ''root'', descendant_id = ''1.1'', depth = 2\<rparr>]"

text \<open>A closure table for the same nodes that stores no self-rows.\<close>

definition tree_paths_no_self :: story_paths where
  "tree_paths_no_self =
     [\<lparr>ancestor_id = ''1'', descendant_id = ''1.1'', depth = 1\<rparr>,
      \<lparr>ancestor_id = ''root'', descendant_id = ''1.1'', depth = 2\<rparr>]"

section \<open>Facts about the table operations\<close>

lemma sql_update_length: "length (sql_update tbl k f) = length tbl"
  by (simp add: sql_update_def)

lemma sql_update_nth:
  "i < length tbl \<Longrightarrow>
     sql_update tbl k f ! i = (if story_path (tbl ! i) = k then f (tbl ! i) else tbl ! i)"
  by (simp add: sql_update_def)


lemma sql_select_one_update:
  assumes "\<And>r. story_path (f r) = story_path r"
  shows "sql_select_one (sql_update tbl k f) k = map_option f (sql_select_one tbl k)"
  using assms by (induction tbl) (auto simp: sql_select_one_def sql_update_def)

lemma sql_select_one_None:
  "sql_select_one tbl k = None \<longleftrightarrow> (\<forall>r \<in> set tbl. story_path r \<noteq> k)"
  by (auto simp: sql_select_one_def find_None_iff)

text \<open>
  On a table whose key column is not named \<^verbatim>\<open>id\<close>, every GUI update fails on its
  first statement and writes nothing.
\<close>

lemma gui_update_no_id_column:
  "key_column \<noteq> ''id'' \<Longrightarrow>
     update_node_status_in_db key_column (Some tbl) node_id new_status note timestamp now
       = (Inl (DatabaseError (''Failed to update status:'' @ [CHR 0x0A]
                 @ ''no such column: id'')), Some tbl)"
  by (simp add: update_node_status_in_db_def)

text \<open>The three classification tables are pairwise disjoint.\<close>

lemma stage_not_terminus: "s \<in> STAGE_VALUES \<Longrightarrow> s \<notin> TERMINUS_VALUES"
  unfolding STAGE_VALUES_def TERMINUS_VALUES_def by auto

lemma stage_not_hold: "s \<in> STAGE_VALUES \<Longrightarrow> s \<notin> STATUS_VALUES_HOLDS"
  unfolding STAGE_VALUES_def STATUS_VALUES_HOLDS_def by auto

lemma hold_not_terminus: "s \<in> STATUS_VALUES_HOLDS \<Longrightarrow> s \<notin> TERMINUS_VALUES"
  unfolding TERMINUS_VALUES_def STATUS_VALUES_HOLDS_def by auto

section \<open>Effective status: the priority rule\<close>

text \<open>
  C1. The label of a node is a function of its three state fields alone: it is the
  terminus when there is one, else the status when that is not \<^verbatim>\<open>ready\<close>, else the
  stage, so it is always the value of one of the three fields. This holds for the
  label the GUI loads and for the one the orphan listing prints, on every row whose
  three fields are not the empty string (the column constraints of the schema admit
  only the enumerated, non-empty values and \<^verbatim>\<open>NULL\<close>).
\<close>

theorem effective_status_priority:
  assumes "terminus r \<noteq> Some []" and "status r \<noteq> Some []" and "stage r \<noteq> []"
  shows "effective_status r = spec_effective_status (terminus r) (status r) (stage r)
       \<and> display_status r = spec_effective_status (terminus r) (status r) (stage r)
       \<and> (\<forall>r'. state_fields r' = state_fields r \<longrightarrow> effective_status r' = effective_status r)
       \<and> (effective_status r = stage r \<or> Some (effective_status r) = status r
            \<or> Some (effective_status r) = terminus r)"
  using assms
  by (auto simp: effective_status_def display_status_def spec_effective_status_def
      sql_effective_status_def py_or_def py_truthy_def state_fields_def split: option.splits)

theorem effective_status_priority_witness:
  "terminus (testing_row\<lparr>status := Some ''escalated''\<rparr>) \<noteq> Some []
   \<and> status (testing_row\<lparr>status := Some ''escalated''\<rparr>) \<noteq> Some []
   \<and> stage (testing_row\<lparr>status := Some ''escalated''\<rparr>) \<noteq> []
   \<and> effective_status (testing_row\<lparr>status := Some ''escalated''\<rparr>) = ''escalated''"
proof -
  have h1: "terminus (testing_row\<lparr>status := Some ''escalated''\<rparr>) \<noteq> Some []"
    and h2: "status (testing_row\<lparr>status := Some ''escalated''\<rparr>) \<noteq> Some []"
    and h3: "stage (testing_row\<lparr>status := Some ''escalated''\<rparr>) \<noteq> []"
    by (simp_all add: testing_row_def)
  have "effective_status (testing_row\<lparr>status := Some ''escalated''\<rparr>)
      = spec_effective_status (terminus (testing_row\<lparr>status := Some ''escalated''\<rparr>))
          (status (testing_row\<lparr>status := Some ''escalated''\<rparr>))
          (stage (testing_row\<lparr>status := Some ''escalated''\<rparr>))"
    by (rule conjunct1 [OF effective_status_priority [OF h1 h2 h3]])
  also have "\<dots> = ''escalated''"
    by (simp add: testing_row_def spec_effective_status_def)
  finally show ?thesis using h1 h2 h3 by blast
qed

section \<open>Transitions to a terminus\<close>

text \<open>
  Where the statements of the GUI update run, on a table keyed by \<^verbatim>\<open>id\<close>, a target
  of the terminus table rewrites exactly the rows of the given key: each gets the target
  as its terminus and \<^verbatim>\<open>ready\<close> as its status, whatever the status was, and keeps
  its stage; every other row is left as it was.
\<close>

lemma terminus_transition_id_keyed:
  assumes "new_status \<in> TERMINUS_VALUES"
  shows "\<exists>msg tbl'.
       update_node_status_in_db ''id'' (Some tbl) node_id new_status note timestamp now
         = (Inr msg, Some tbl')
     \<and> length tbl' = length tbl
     \<and> (\<forall>i < length tbl.
          (story_path (tbl ! i) = node_id \<longrightarrow>
             terminus (tbl' ! i) = Some new_status \<and> status (tbl' ! i) = Some ''ready''
             \<and> stage (tbl' ! i) = stage (tbl ! i) \<and> story_path (tbl' ! i) = node_id)
        \<and> (story_path (tbl ! i) \<noteq> node_id \<longrightarrow> tbl' ! i = tbl ! i))"
  using assms
  by (simp add: update_node_status_in_db_def Let_def sql_update_length sql_update_nth)

text \<open>
  C2. A transition to a terminus is to leave the row with the target as its terminus,
  the status \<^verbatim>\<open>ready\<close> and its stage. On the table that the GUI loads, keyed by
  \<^verbatim>\<open>story_path\<close>, the transition of the scenario node (testing, ready, no terminus)
  to \<^verbatim>\<open>shipped\<close> is reported as a database error, \<^verbatim>\<open>no such column: id\<close>, and the
  row stays as it was, without terminus.
\<close>

theorem terminus_transition_fails_on_loaded_table:
  "''shipped'' \<in> TERMINUS_VALUES
   \<and> update_node_status_in_db ''story_path'' (Some [testing_row]) ''8.4'' ''shipped'' []
         ''2025-01-02 10:00'' ''2025-01-02T10:00:00''
       = (Inl (DatabaseError (''Failed to update status:'' @ [CHR 0x0A] @ ''no such column: id'')),
          Some [testing_row])
   \<and> map state_fields [testing_row] = [(''testing'', Some ''ready'', None)]"
  by (simp add: update_node_status_in_db_def TERMINUS_VALUES_def testing_row_def state_fields_def)

section \<open>Transitions to a stage\<close>

text \<open>
  The stage branch of the GUI transition, where its statements run: the rows of the key
  get the target as their stage, \<^verbatim>\<open>ready\<close> as their status and no terminus.
\<close>

lemma gui_stage_transition:
  assumes "new_status \<in> STAGE_VALUES"
  shows "\<exists>msg tbl'.
       update_node_status_in_db ''id'' (Some tbl) node_id new_status note timestamp now
         = (Inr msg, Some tbl')
     \<and> length tbl' = length tbl
     \<and> (\<forall>i < length tbl.
          (story_path (tbl ! i) = node_id \<longrightarrow>
             stage (tbl' ! i) = new_status \<and> status (tbl' ! i) = Some ''ready''
             \<and> terminus (tbl' ! i) = None)
        \<and> (story_path (tbl ! i) \<noteq> node_id \<longrightarrow> tbl' ! i = tbl ! i))"
  using assms stage_not_terminus [OF assms] stage_not_hold [OF assms]
  by (simp add: update_node_status_in_db_def Let_def sql_update_length sql_update_nth)

text \<open>
  The stage update of the command-line tool never writes the terminus column, with or
  without the hold flag.
\<close>

lemma cli_never_writes_terminus:
  "map terminus (snd (update_status tbl story_id new_stage note hold timestamp now))
     = map terminus tbl"
  by (auto simp: update_status_def sql_update_def Let_def split: option.splits)

text \<open>
  C3. A transition to a stage is to leave the row with that stage, the status
  \<^verbatim>\<open>ready\<close> and no terminus on every write path. The command-line stage update of a
  shipped story to \<^verbatim>\<open>concept\<close>, a stage of both vocabularies, sets the stage and the
  status and keeps the terminus \<^verbatim>\<open>shipped\<close>.
\<close>

theorem cli_stage_update_keeps_terminus:
  "''concept'' \<in> VALID_STAGES \<and> ''concept'' \<in> STAGE_VALUES
   \<and> map state_fields (snd (update_status [shipped_row] ''8.4'' ''concept'' None False
         ''2025-01-02 10:00'' ''2025-01-02 10:00:00''))
     = [(''concept'', Some ''ready'', Some ''shipped'')]"
  by (simp add: update_status_def VALID_STAGES_def STAGE_VALUES_def shipped_row_def testing_row_def
      sql_select_one_def sql_update_def state_fields_def py_truthy_def py_or_def)

section \<open>Rejected requests\<close>




section \<open>The mandatory note\<close>

text \<open>
  With the note mandatory, a dialog in which every \<^verbatim>\<open>OK\<close> is pressed on blank text
  is never accepted, and shows one warning for each such press before the first
  \<^verbatim>\<open>Cancel\<close>.
\<close>

lemma dialog_exec_mandatory_blank:
  assumes "\<forall>txt. ClickOk txt \<in> set events \<longrightarrow> py_strip txt = []"
  shows "snd (dialog_exec True new_status events) = (Rejected, None)
       \<and> length (fst (dialog_exec True new_status events))
           = length (takeWhile (\<lambda>e. e \<noteq> ClickCancel) events)"
  using assms
proof (induction events)
  case Nil
  then show ?case by simp
next
  case (Cons e es)
  show ?case
  proof (cases e)
    case (ClickOk tx)
    with Cons.prems have b: "py_strip tx = []" by simp
    from Cons have ih: "snd (dialog_exec True new_status es) = (Rejected, None)
       \<and> length (fst (dialog_exec True new_status es))
           = length (takeWhile (\<lambda>e. e \<noteq> ClickCancel) es)" by simp
    from ClickOk b ih show ?thesis
      by (cases "dialog_exec True new_status es") (simp add: on_confirm_def)
  next
    case ClickCancel
    then show ?thesis by simp
  qed
qed

lemma dialog_exec_accepted:
  "dialog_exec True new_status events = (ws, Accepted, res) \<Longrightarrow>
     \<exists>txt. ClickOk txt \<in> set events \<and> py_strip txt \<noteq> [] \<and> res = Some (py_strip txt)"
proof (induction events arbitrary: ws)
  case Nil
  then show ?case by simp
next
  case (Cons e es)
  show ?case
  proof (cases e)
    case (ClickOk tx)
    show ?thesis
    proof (cases "py_strip tx = []")
      case True
      with ClickOk Cons.prems obtain ws' where "dialog_exec True new_status es = (ws', Accepted, res)"
        by (auto simp: on_confirm_def split: prod.splits)
      from Cons.IH [OF this] show ?thesis by auto
    next
      case False
      with ClickOk Cons.prems show ?thesis
        by (auto simp: on_confirm_def)
    qed
  next
    case ClickCancel
    with Cons.prems show ?thesis by simp
  qed
qed

text \<open>
  C5. A transition to \<^verbatim>\<open>polish\<close> for which the user never confirms a non-blank
  note is refused: each confirmation shows the warning that notes are required, no
  update is run and the database, so every field of the node, is as before. An update
  is run only when some confirmation carried a non-blank note.
\<close>

theorem polish_requires_note:
  "((\<forall>txt. ClickOk txt \<in> set events \<longrightarrow> py_strip txt = []) \<longrightarrow>
      snd (change_node_status key_column nodes db node_id ''polish'' events timestamp now) = (None, db)
    \<and> (nodes node_id \<noteq> None \<longrightarrow>
         length (fst (change_node_status key_column nodes db node_id ''polish'' events timestamp now))
           = length (takeWhile (\<lambda>e. e \<noteq> ClickCancel) events)))
 \<and> (fst (snd (change_node_status key_column nodes db node_id ''polish'' events timestamp now)) \<noteq> None \<longrightarrow>
      (\<exists>txt. ClickOk txt \<in> set events \<and> py_strip txt \<noteq> []))"
proof (intro conjI impI)
  assume a: "\<forall>txt. ClickOk txt \<in> set events \<longrightarrow> py_strip txt = []"
  from dialog_exec_mandatory_blank [OF a, of "''polish''"]
  show "snd (change_node_status key_column nodes db node_id ''polish'' events timestamp now) = (None, db)"
    by (cases "dialog_exec True ''polish'' events")
       (simp add: change_node_status_def split: option.splits)
next
  assume a: "\<forall>txt. ClickOk txt \<in> set events \<longrightarrow> py_strip txt = []"
    and n: "nodes node_id \<noteq> None"
  from dialog_exec_mandatory_blank [OF a, of "''polish''"] n
  show "length (fst (change_node_status key_column nodes db node_id ''polish'' events timestamp now))
           = length (takeWhile (\<lambda>e. e \<noteq> ClickCancel) events)"
    by (cases "dialog_exec True ''polish'' events")
       (auto simp: change_node_status_def split: option.splits)
next
  assume w: "fst (snd (change_node_status key_column nodes db node_id ''polish'' events timestamp now)) \<noteq> None"
  obtain ws code res where d: "dialog_exec True ''polish'' events = (ws, code, res)"
    by (cases "dialog_exec True ''polish'' events") auto
  with w have "code = Accepted"
    by (auto simp: change_node_status_def split: option.splits if_splits)
  with d dialog_exec_accepted show "\<exists>txt. ClickOk txt \<in> set events \<and> py_strip txt \<noteq> []"
    by blast
qed

theorem polish_requires_note_witness:
  "py_strip [] = [] \<and> py_strip ''  '' = []
   \<and> snd (change_node_status ''story_path'' [''3.1'' \<mapsto> ()] (Some [escalated_concept_row])
          ''3.1'' ''polish'' [ClickOk [], ClickOk ''  ''] ''2025-01-02 10:00''
          ''2025-01-02T10:00:00'')
       = (None, Some [escalated_concept_row])"
proof -
  have h: "\<forall>txt. ClickOk txt \<in> set [ClickOk [], ClickOk ''  ''] \<longrightarrow> py_strip txt = []"
    by (auto simp: py_strip_def py_isspace_def)
  have b: "py_strip [] = []" "py_strip ''  '' = []"
    by (simp_all add: py_strip_def py_isspace_def)
  from polish_requires_note [of "[ClickOk [], ClickOk ''  '']" "''story_path''"
      "[''3.1'' \<mapsto> ()]" "Some [escalated_concept_row]" "''3.1''" "''2025-01-02 10:00''"
      "''2025-01-02T10:00:00''", THEN conjunct1, THEN mp, OF h, THEN conjunct1]
  show ?thesis by (intro conjI b)
qed

section \<open>Repeating a transition\<close>

lemma entry_nonempty: "new_note_entry ts t n \<noteq> []"
  by (simp add: new_note_entry_def)

lemma updated_notes_nonempty: "updated_notes c (new_note_entry ts t n) \<noteq> []"
  by (simp add: updated_notes_def new_note_entry_def)

lemma select_present:
  "i < length tbl \<Longrightarrow> story_path (tbl ! i) = k \<Longrightarrow> \<exists>r. sql_select_one tbl k = Some r"
  using sql_select_one_None [of tbl k] by (cases "sql_select_one tbl k") auto



lemma update_recognised:
  assumes "t \<in> TERMINUS_VALUES \<union> STATUS_VALUES_HOLDS \<union> STAGE_VALUES"
  shows "\<exists>msg. update_node_status_in_db ''id'' (Some tbl) k t note ts now
     = (Inr msg, Some (sql_update tbl k
          (apply_target t (updated_notes (current_notes tbl k) (new_note_entry ts t note)) now)))"
  using assms
  by (auto simp: update_node_status_in_db_def Let_def current_notes_def apply_target_def [abs_def])

lemma update_refused:
  assumes "\<not> (key_column = ''id''
      \<and> t \<in> TERMINUS_VALUES \<union> STATUS_VALUES_HOLDS \<union> STAGE_VALUES)"
  shows "\<exists>e. update_node_status_in_db key_column (Some tbl) k t note ts now = (Inl e, Some tbl)"
proof (cases "key_column = ''id''")
  case True
  with assms show ?thesis
    by (simp add: update_node_status_in_db_def Let_def)
next
  case False
  then show ?thesis
    by (simp add: update_node_status_in_db_def)
qed

lemma apply_target_key: "story_path (apply_target t un now r) = story_path r"
  by (simp add: apply_target_def)

lemma apply_target_notes: "notes_col (apply_target t un now r) = Some un"
  by (simp add: apply_target_def)

lemma apply_target_twice:
  "state_fields (apply_target t un' now' (apply_target t un now r))
     = state_fields (apply_target t un now r)"
  by (simp add: apply_target_def state_fields_def)

lemma sql_update_twice_fields:
  "map state_fields (sql_update (sql_update tbl k (apply_target t un now)) k (apply_target t un' now'))
     = map state_fields (sql_update tbl k (apply_target t un now))"
  by (simp add: sql_update_def apply_target_key apply_target_twice)

lemma current_notes_after:
  assumes "sql_select_one tbl k \<noteq> None" and "un \<noteq> []"
  shows "current_notes (sql_update tbl k (apply_target t un now)) k = un"
  using assms
  by (auto simp: current_notes_def sql_select_one_update apply_target_key apply_target_notes py_or_def)

text \<open>
  Two applications in a row of the same transition, whatever the key column, the
  database, the id, the target and the notes: the stage, status and terminus of every
  row are as one application leaves them, and the second application fails or succeeds
  as the first did; when the first application succeeds, the notes of the node's rows
  grow by one more entry with the second.
\<close>

lemma transition_twice:
  assumes 1: "update_node_status_in_db key_column db node_id new_status note1 ts1 now1
                = (out1, db1)"
      and 2: "update_node_status_in_db key_column db1 node_id new_status note2 ts2 now2
                = (out2, db2)"
  shows "map_option (map state_fields) db2 = map_option (map state_fields) db1
       \<and> isl out2 = isl out1
       \<and> (\<not> isl out1 \<longrightarrow>
            (\<forall>tbl1 tbl2 i. db1 = Some tbl1 \<and> db2 = Some tbl2 \<and> i < length tbl1
                \<and> story_path (tbl1 ! i) = node_id \<longrightarrow>
              (\<exists>n1. notes_col (tbl1 ! i) = Some n1
                 \<and> notes_col (tbl2 ! i)
                      = Some (n1 @ [CHR 0x0A] @ new_note_entry ts2 new_status note2))))"
proof (cases db)
  case None
  with 1 2 show ?thesis by (auto simp: update_node_status_in_db_def)
next
  case (Some tbl)
  show ?thesis
  proof (cases "key_column = ''id''
      \<and> new_status \<in> TERMINUS_VALUES \<union> STATUS_VALUES_HOLDS \<union> STAGE_VALUES")
    case False
    from update_refused [OF False, of tbl node_id note1 ts1 now1] 1 Some
    have a: "db1 = Some tbl" "isl out1"
      by auto
    from update_refused [OF False, of tbl node_id note2 ts2 now2] 2 a(1)
    have "db2 = Some tbl" "isl out2"
      by auto
    with a show ?thesis by simp
  next
    case True
    then have key: "key_column = ''id''"
      and rec: "new_status \<in> TERMINUS_VALUES \<union> STATUS_VALUES_HOLDS \<union> STAGE_VALUES"
      by simp_all
    define un1 where
      "un1 = updated_notes (current_notes tbl node_id) (new_note_entry ts1 new_status note1)"
    define tbl1 where "tbl1 = sql_update tbl node_id (apply_target new_status un1 now1)"
    define un2 where
      "un2 = updated_notes (current_notes tbl1 node_id) (new_note_entry ts2 new_status note2)"
    define tbl2 where "tbl2 = sql_update tbl1 node_id (apply_target new_status un2 now2)"
    from update_recognised [OF rec, of tbl node_id note1 ts1 now1] 1 Some key
    have o1: "isl out1 = False" and d1: "db1 = Some tbl1"
      by (auto simp: tbl1_def un1_def)
    from update_recognised [OF rec, of tbl1 node_id note2 ts2 now2] 2 d1 key
    have o2: "isl out2 = False" and d2: "db2 = Some tbl2"
      by (auto simp: tbl2_def un2_def)
    have f: "map state_fields tbl2 = map state_fields tbl1"
      unfolding tbl2_def tbl1_def by (rule sql_update_twice_fields)
    have n: "\<exists>n1. notes_col (tbl1 ! i) = Some n1
                 \<and> notes_col (tbl2 ! i)
                      = Some (n1 @ [CHR 0x0A] @ new_note_entry ts2 new_status note2)"
      if i: "i < length tbl1" and k: "story_path (tbl1 ! i) = node_id" for i
    proof -
      from i have il: "i < length tbl" by (simp add: tbl1_def sql_update_length)
      with k have k0: "story_path (tbl ! i) = node_id"
        by (simp add: tbl1_def sql_update_nth apply_target_key split: if_splits)
      with il have p: "sql_select_one tbl node_id \<noteq> None"
        using select_present by fastforce
      have ne: "un1 \<noteq> []" by (simp add: un1_def updated_notes_nonempty)
      from current_notes_after [OF p ne] have c: "current_notes tbl1 node_id = un1"
        by (simp add: tbl1_def)
      from il k0 have a: "notes_col (tbl1 ! i) = Some un1"
        by (simp add: tbl1_def sql_update_nth apply_target_notes)
      from i k have b: "notes_col (tbl2 ! i) = Some un2"
        by (simp add: tbl2_def sql_update_nth apply_target_notes)
      from ne c have "un2 = un1 @ [CHR 0x0A] @ new_note_entry ts2 new_status note2"
        by (simp add: un2_def updated_notes_def)
      with a b show ?thesis by simp
    qed
    from o1 o2 d1 d2 f n show ?thesis by auto
  qed
qed

section \<open>The orphan listing\<close>

lemma no_descendant_row:
  "list_ex (\<lambda>sp. descendant_id sp = k) paths \<longleftrightarrow> k \<in> descendant_id ` set paths"
  by (auto simp: list_ex_iff)

lemma set_orphans:
  "set (map story_path (orphans_query nodes paths))
     = {k \<in> story_path ` set nodes. k \<noteq> ''root'' \<and> k \<notin> descendant_id ` set paths}"
proof -
  have "set (orphans_query nodes paths)
      = {sn \<in> set nodes. story_path sn \<noteq> ''root''
           \<and> story_path sn \<notin> descendant_id ` set paths}"
    by (simp add: orphans_query_def no_descendant_row)
  then show ?thesis by auto
qed

lemma sorted_orphans: "sorted (map story_path (orphans_query nodes paths))"
  by (simp add: orphans_query_def)

lemma spec_orphan_no_self:
  assumes "\<forall>sp \<in> set paths. ancestor_id sp \<noteq> descendant_id sp"
  shows "spec_orphan paths k \<longleftrightarrow> k \<noteq> ''root'' \<and> k \<notin> descendant_id ` set paths"
  using assms by (auto simp: spec_orphan_def list_ex_iff)

text \<open>
  C7, as the claim has it, fails. In the tree that lacks the one closure row from
  \<^verbatim>\<open>root\<close> to the mid-level node \<^verbatim>\<open>1\<close>, that node has no row with an ancestor
  other than itself, yet its self-row keeps it out of the listing, which is empty.
\<close>

theorem orphan_with_self_row_not_listed:
  "spec_orphan tree_paths_missing_one ''1''
   \<and> map story_path (orphans_query tree_nodes tree_paths_missing_one) = []"
  by (simp add: spec_orphan_def orphans_query_def tree_nodes_def tree_paths_missing_one_def
      testing_row_def)

text \<open>
  C7, amended. The listing returns, in ascending order of id, exactly the ids of the
  nodes other than the root that are the descendant in no closure row at all, a
  self-row included. On a closure table without self-rows these are exactly the
  orphans of the specification.
\<close>

theorem orphans_query_exact:
  "set (map story_path (orphans_query nodes paths))
     = {k \<in> story_path ` set nodes. k \<noteq> ''root'' \<and> k \<notin> descendant_id ` set paths}
   \<and> sorted (map story_path (orphans_query nodes paths))
   \<and> ((\<forall>sp \<in> set paths. ancestor_id sp \<noteq> descendant_id sp) \<longrightarrow>
        set (map story_path (orphans_query nodes paths))
          = {k \<in> story_path ` set nodes. spec_orphan paths k})"
proof (intro conjI impI)
  show "set (map story_path (orphans_query nodes paths))
     = {k \<in> story_path ` set nodes. k \<noteq> ''root'' \<and> k \<notin> descendant_id ` set paths}"
    by (rule set_orphans)
next
  show "sorted (map story_path (orphans_query nodes paths))"
    by (rule sorted_orphans)
next
  assume "\<forall>sp \<in> set paths. ancestor_id sp \<noteq> descendant_id sp"
  then have "spec_orphan paths k \<longleftrightarrow> k \<noteq> ''root'' \<and> k \<notin> descendant_id ` set paths" for k
    by (rule spec_orphan_no_self)
  then show "set (map story_path (orphans_query nodes paths))
          = {k \<in> story_path ` set nodes. spec_orphan paths k}"
    by (simp only: set_orphans)
qed

theorem orphans_query_exact_witness:
  "set (map story_path (orphans_query tree_nodes tree_paths_no_self))
       = {k \<in> story_path ` set tree_nodes. spec_orphan tree_paths_no_self k}
   \<and> map story_path (orphans_query tree_nodes tree_paths_no_self) = [''1'']
   \<and> map story_path (orphans_query tree_nodes tree_paths_missing_all) = [''1'']"
proof -
  have h: "\<forall>sp \<in> set tree_paths_no_self. ancestor_id sp \<noteq> descendant_id sp"
    by (simp add: tree_paths_no_self_def)
  note a = orphans_query_exact [of tree_nodes tree_paths_no_self, THEN conjunct2,
      THEN conjunct2, THEN mp, OF h]
  have b: "map story_path (orphans_query tree_nodes tree_paths_no_self) = [''1'']"
    by (simp add: orphans_query_def tree_nodes_def tree_paths_no_self_def testing_row_def)
  have c: "map story_path (orphans_query tree_nodes tree_paths_missing_all) = [''1'']"
    by (simp add: orphans_query_def tree_nodes_def tree_paths_missing_all_def testing_row_def)
  show ?thesis
    by (intro conjI a b c)
qed

section \<open>Exit codes\<close>

text \<open>
  C8, as the claim has it, fails for the orphan listing: with an orphan found it
  still returns 0.
\<close>

theorem list_orphans_exit_zero_with_orphans:
  "orphans_query tree_nodes tree_paths_missing_all \<noteq> []
   \<and> snd (list_orphans_main False tree_nodes tree_paths_missing_all) = 0"
  by (simp add: list_orphans_main_def orphans_query_def tree_nodes_def
      tree_paths_missing_all_def testing_row_def Let_def)

text \<open>
  C8, amended. The health report exits with 0 when the validation found no issue and
  with 1 when it found some; the orphan listing exits with 0 whether or not it lists
  an orphan.
\<close>

theorem exit_codes:
  "(total_issues issues = 0 \<longrightarrow> snd (tree_health_main issues) = 0)
   \<and> (total_issues issues \<noteq> 0 \<longrightarrow> snd (tree_health_main issues) = 1)
   \<and> snd (list_orphans_main ids_only nodes paths) = 0"
  by (simp add: tree_health_main_def list_orphans_main_def Let_def)

theorem exit_codes_witness:
  "total_issues [(''orphans'', [''1'']), (''cycles'', [])] \<noteq> 0
   \<and> snd (tree_health_main [(''orphans'', [''1'']), (''cycles'', [])]) = 1
   \<and> total_issues [(''orphans'', []::string list), (''cycles'', [])] = 0
   \<and> snd (tree_health_main [(''orphans'', []::string list), (''cycles'', [])]) = 0"
proof -
  have h1: "total_issues [(''orphans'', [''1'']), (''cycles'', [])] \<noteq> 0"
    by (simp add: total_issues_def)
  have h0: "total_issues [(''orphans'', []::string list), (''cycles'', [])] = 0"
    by (simp add: total_issues_def)
  note a = exit_codes [of "[(''orphans'', [''1'']), (''cycles'', [])]" False "[]" "[]",
      THEN conjunct2, THEN conjunct1, THEN mp, OF h1]
  note b = exit_codes [of "[(''orphans'', []::string list), (''cycles'', [])]" False "[]" "[]",
      THEN conjunct1, THEN mp, OF h0]
  show ?thesis
    by (intro conjI h1 a h0 b)
qed

section \<open>The order of node ids\<close>

text \<open>
  On integer keys the tuple comparison is the lexicographic order of the integer lists;
  a piece made of at most 4300 ASCII digits is an integer literal, with its decimal
  value.
\<close>

lemma tuple_lt_ints: "tuple_lt (map KInt xs) (map KInt ys) = Some (xs < ys)"
proof (induction xs arbitrary: ys)
  case Nil
  then show ?case by (cases ys) simp_all
next
  case (Cons x xs)
  then show ?case by (cases ys) auto
qed

lemma digit_not_underscore: "is_digit c \<Longrightarrow> c \<noteq> CHR ''_''"
  by (auto simp: is_digit_def)

lemma scan_digits_all:
  assumes "\<forall>c \<in> set ds. is_digit c" and "ds = [] \<longrightarrow> prev \<noteq> CHR ''_''"
  shows "scan_digits prev acc ds = Some (acc @ map digit_val ds, [])"
  using assms
proof (induction ds arbitrary: prev acc)
  case Nil
  then show ?case by simp
next
  case (Cons c cs)
  from Cons.prems have d: "is_digit c" and r: "\<forall>c \<in> set cs. is_digit c" by simp_all
  from d have u: "c \<noteq> CHR ''_''" by (rule digit_not_underscore)
  from Cons.IH [OF r, of c "acc @ [digit_val c]"] u d show ?case by simp
qed

lemma digit_not_space: "is_digit c \<Longrightarrow> \<not> int_isspace c"
  by (auto simp: is_digit_def int_isspace_def)

lemma digit_not_sign: "is_digit c \<Longrightarrow> c \<noteq> CHR ''+'' \<and> c \<noteq> CHR ''-''"
  by (auto simp: is_digit_def)

lemma py_int_digits:
  assumes "ds \<noteq> []" and "\<forall>c \<in> set ds. is_digit c" and "length ds \<le> int_max_str_digits"
  shows "py_int ds = Some (int (decimal (map digit_val ds)))"
proof -
  from assms obtain c cs where ds: "ds = c # cs" by (cases ds) auto
  with assms have d: "is_digit c" by simp
  have s: "scan_digits (CHR 0x00) [] ds = Some (map digit_val ds, [])"
    using scan_digits_all [OF assms(2), of "CHR 0x00" "[]"] assms(1) by simp
  from ds d assms(3) s digit_not_space [OF d] digit_not_sign [OF d] show ?thesis
    by (simp add: py_int_def Let_def)
qed

lemma id_lt_rank: "id_lt a b \<longleftrightarrow> spec_rank a < spec_rank b"
  by (auto simp: id_lt_def sort_key_id_def spec_rank_def tuple_lt_ints split: option.splits)


lemma insort_id_rank: "insort_id f x ys = insort_key (spec_rank \<circ> f) x ys"
  by (induction ys) (auto simp: id_lt_rank)

lemma sort_by_id_rank: "sort_by_id f xs = sort_key (spec_rank \<circ> f) xs"
  by (simp add: sort_by_id_def sort_key_def insort_id_rank [abs_def])




section \<open>The ancestors collected by the filter\<close>

text \<open>
  The ancestors of an id are what the parent relation reaches from it in one step or
  more. When the loop of \<open>get_ancestors\<close> returns, it returns exactly these; it
  returns whenever the parent ids admit a rank.
\<close>

lemma nodes_get_Some: "nodes_get nodes k = Some n \<Longrightarrow> sn_id n = k \<and> n \<in> set nodes"
  by (auto simp: nodes_get_def find_Some_iff)

lemma nodes_get_None: "nodes_get nodes k = None \<longleftrightarrow> k \<notin> sn_id ` set nodes"
  by (auto simp: nodes_get_def find_None_iff)

lemma parent_rel_image:
  "parent_rel nodes `` {k} =
     (case nodes_get nodes k of
        None \<Rightarrow> {}
      | Some n \<Rightarrow> if py_truthy (sn_parent_id n) then {the (sn_parent_id n)} else {})"
  by (auto simp: parent_rel_def py_truthy_def split: option.splits)

lemma trancl_image_unfold: "r\<^sup>+ `` {a} = r `` {a} \<union> r\<^sup>+ `` (r `` {a})"
proof (intro set_eqI iffI)
  fix x assume "x \<in> r\<^sup>+ `` {a}"
  then have "(a, x) \<in> r\<^sup>+" by simp
  then show "x \<in> r `` {a} \<union> r\<^sup>+ `` (r `` {a})"
    by (cases rule: converse_tranclE) auto
next
  fix x assume "x \<in> r `` {a} \<union> r\<^sup>+ `` (r `` {a})"
  then show "x \<in> r\<^sup>+ `` {a}"
    by (auto intro: trancl_into_trancl2)
qed

lemma ancestors_unfold:
  "(parent_rel nodes)\<^sup>+ `` {k} =
     (case nodes_get nodes k of
        None \<Rightarrow> {}
      | Some n \<Rightarrow>
          if py_truthy (sn_parent_id n)
          then insert (the (sn_parent_id n)) ((parent_rel nodes)\<^sup>+ `` {the (sn_parent_id n)})
          else {})"
  by (subst trancl_image_unfold) (simp add: parent_rel_image split: option.splits)

lemma ancestors_loop_result:
  assumes "ancestors_loop nodes node acc = Some S"
  shows "S = acc \<union> (case node of
                  None \<Rightarrow> {}
                | Some n \<Rightarrow>
                    if py_truthy (sn_parent_id n)
                    then insert (the (sn_parent_id n))
                           ((parent_rel nodes)\<^sup>+ `` {the (sn_parent_id n)})
                    else {})"
  using assms
proof (induction nodes node acc S rule: ancestors_loop.raw_induct [rotated 1, consumes 1])
  case (1 loop nodes node acc S)
  show ?case
  proof (cases node)
    case None
    with 1(2) show ?thesis by simp
  next
    case (Some n)
    show ?thesis
    proof (cases "py_truthy (sn_parent_id n)")
      case False
      with Some 1(2) show ?thesis by simp
    next
      case True
      with Some 1(2) have l: "loop nodes (nodes_get nodes (the (sn_parent_id n)))
          (insert (the (sn_parent_id n)) acc) = Some S" by simp
      from 1(1) [OF l] have "S = insert (the (sn_parent_id n)) acc
          \<union> (parent_rel nodes)\<^sup>+ `` {the (sn_parent_id n)}"
        by (simp add: ancestors_unfold [of nodes "the (sn_parent_id n)"])
      with Some True show ?thesis by simp
    qed
  qed
qed

lemma get_ancestors_result:
  "get_ancestors nodes k = Some S \<Longrightarrow> S = (parent_rel nodes)\<^sup>+ `` {k}"
  unfolding get_ancestors_def
  by (drule ancestors_loop_result) (simp add: ancestors_unfold [of nodes k])

lemma collect_ancestors_result:
  "collect_ancestors nodes ks = Some S \<Longrightarrow> S = (parent_rel nodes)\<^sup>+ `` set ks"
proof (induction ks arbitrary: S)
  case Nil
  then show ?case by simp
next
  case (Cons k ks)
  then obtain a b where a: "get_ancestors nodes k = Some a"
    and b: "collect_ancestors nodes ks = Some b" and S: "S = a \<union> b"
    by (auto split: option.splits)
  from get_ancestors_result [OF a] Cons.IH [OF b] S show ?case by auto
qed

lemma ranked_parent_rel:
  assumes "ranked f nodes" and "(c, p) \<in> parent_rel nodes" and "p \<in> sn_id ` set nodes"
  shows "f p < f c"
proof -
  from assms(2) obtain n where n: "nodes_get nodes c = Some n"
    and p: "sn_parent_id n = Some p" "p \<noteq> []"
    by (auto simp: parent_rel_def)
  from n have m: "n \<in> set nodes" "sn_id n = c"
    using nodes_get_Some by auto
  from assms(3) have "nodes_get nodes p \<noteq> None"
    by (simp add: nodes_get_None)
  with assms(1) m p show ?thesis
    by (auto simp: ranked_def list_all_iff py_truthy_def)
qed

lemma ancestors_loop_terminates:
  assumes "ranked f nodes" and "nodes_get nodes k = Some n"
  shows "ancestors_loop nodes (Some n) acc \<noteq> None"
  using assms(2)
proof (induction "f k" arbitrary: k n acc rule: less_induct)
  case less
  show ?case
  proof (cases "py_truthy (sn_parent_id n)")
    case False
    then show ?thesis by (subst ancestors_loop.simps) simp
  next
    case True
    let ?p = "the (sn_parent_id n)"
    from True less.prems have e: "(k, ?p) \<in> parent_rel nodes"
      by (auto simp: parent_rel_def py_truthy_def split: option.splits)
    show ?thesis
    proof (cases "nodes_get nodes ?p")
      case None
      with True show ?thesis
        by (subst ancestors_loop.simps) (simp add: ancestors_loop.simps [of nodes None])
    next
      case (Some m)
      then have "?p \<in> sn_id ` set nodes"
        using nodes_get_None [of nodes ?p] by auto
      with e ranked_parent_rel [OF assms(1)] have "f ?p < f k" by blast
      from less.hyps [OF this Some] True Some show ?thesis
        by (subst ancestors_loop.simps) simp
    qed
  qed
qed

lemma get_ancestors_terminates:
  assumes "ranked f nodes"
  shows "get_ancestors nodes k \<noteq> None"
proof (cases "nodes_get nodes k")
  case None
  then show ?thesis by (simp add: get_ancestors_def ancestors_loop.simps)
next
  case (Some n)
  with ancestors_loop_terminates [OF assms Some] show ?thesis
    by (simp add: get_ancestors_def)
qed

lemma collect_ancestors_terminates:
  assumes "ranked f nodes"
  shows "collect_ancestors nodes ks \<noteq> None"
  using get_ancestors_terminates [OF assms]
  by (induction ks) (auto split: option.splits)

section \<open>The tree shown by the filter\<close>

text \<open>
  Facts about the dictionary of loaded nodes: ids are keys, and the children list of a
  node holds the nodes whose parent it is.
\<close>

lemma set_sort_by_id: "set (sort_by_id f xs) = set xs"
  by (simp add: sort_by_id_rank)

lemma nodes_get_self:
  "distinct (map sn_id nodes) \<Longrightarrow> n \<in> set nodes \<Longrightarrow> nodes_get nodes (sn_id n) = Some n"
  by (induction nodes) (auto simp: nodes_get_def)

lemma nodes_get_eq:
  assumes "distinct (map sn_id nodes)" and "n \<in> set nodes"
  shows "nodes_get nodes k = Some n \<longleftrightarrow> k = sn_id n"
  using nodes_get_self [OF assms] nodes_get_Some [of nodes k n] by auto

lemma parent_rel_node:
  assumes "distinct (map sn_id nodes)" and "c \<in> set nodes"
  shows "(sn_id c, p) \<in> parent_rel nodes \<longleftrightarrow> sn_parent_id c = Some p \<and> p \<noteq> []"
  using nodes_get_self [OF assms] by (auto simp: parent_rel_def)

lemma parent_rel_dom: "(c, p) \<in> parent_rel nodes \<Longrightarrow> \<exists>n \<in> set nodes. sn_id n = c"
  using nodes_get_Some by (fastforce simp: parent_rel_def)

lemma kids_set:
  assumes d: "distinct (map sn_id nodes)" and n: "n \<in> set nodes"
  shows "set (sort_by_id sn_id (filter (\<lambda>c. sn_id c \<in> V) (children_of nodes n)))
       = {c \<in> set nodes. sn_id c \<in> V \<and> (sn_id c, sn_id n) \<in> parent_rel nodes}"
proof -
  have "py_truthy (sn_parent_id c) \<and> nodes_get nodes (the (sn_parent_id c)) = Some n
        \<longleftrightarrow> (sn_id c, sn_id n) \<in> parent_rel nodes" if "c \<in> set nodes" for c
    using parent_rel_node [OF d that, of "sn_id n"] nodes_get_eq [OF d n, of "the (sn_parent_id c)"]
      nodes_get_Some [of nodes "[]" n]
    by (cases "sn_parent_id c") (auto simp: py_truthy_def)
  then show ?thesis
    by (auto simp: set_sort_by_id children_of_def)
qed

text \<open>
  The items added for a visible node are the node and its visible descendants, when the
  depth bound exceeds what the rank leaves above the node.
\<close>

lemma those_map_Some: "those (map (\<lambda>x. Some (h x)) xs) = Some (map h xs)"
  by (induction xs) simp_all

lemma closed_trancl:
  assumes "\<forall>c p. c \<in> V \<and> (c, p) \<in> r \<longrightarrow> p \<in> V" and "(d, a) \<in> r\<^sup>+" and "d \<in> V"
  shows "a \<in> V"
  using assms(2,3,1) by (induction rule: trancl_induct) blast+

lemma desc_unfold:
  assumes cl: "\<forall>c p. c \<in> V \<and> (c, p) \<in> parent_rel nodes \<longrightarrow> p \<in> V"
  shows "{d \<in> V. (d, k) \<in> (parent_rel nodes)\<^sup>+}
       = (\<Union>c \<in> {c \<in> set nodes. sn_id c \<in> V \<and> (sn_id c, k) \<in> parent_rel nodes}.
            insert (sn_id c) {d \<in> V. (d, sn_id c) \<in> (parent_rel nodes)\<^sup>+})"
    (is "?L = ?R")
proof (intro set_eqI iffI)
  fix d assume "d \<in> ?L"
  then have dv: "d \<in> V" and dk: "(d, k) \<in> (parent_rel nodes)\<^sup>+" by auto
  from dk show "d \<in> ?R"
  proof (cases rule: tranclE)
    case base
    with parent_rel_dom obtain c where "c \<in> set nodes" "sn_id c = d" by blast
    with base dv show ?thesis by auto
  next
    case (step m)
    from closed_trancl [OF cl step(1) dv] have mv: "m \<in> V" .
    from step(2) parent_rel_dom obtain c where "c \<in> set nodes" "sn_id c = m" by blast
    with step mv dv show ?thesis by auto
  qed
next
  fix d assume "d \<in> ?R"
  then obtain c where c: "c \<in> set nodes" "sn_id c \<in> V" "(sn_id c, k) \<in> parent_rel nodes"
    and d: "d = sn_id c \<or> (d \<in> V \<and> (d, sn_id c) \<in> (parent_rel nodes)\<^sup>+)"
    by auto
  from d show "d \<in> ?L"
  proof
    assume "d = sn_id c"
    with c show ?thesis by auto
  next
    assume "d \<in> V \<and> (d, sn_id c) \<in> (parent_rel nodes)\<^sup>+"
    with c(3) show ?thesis by (auto intro: trancl_into_trancl)
  qed
qed


lemma add_filtered_node_subtree:
  assumes d: "distinct (map sn_id nodes)"
    and r: "ranked f nodes"
    and cl: "\<forall>c p. c \<in> V \<and> (c, p) \<in> parent_rel nodes \<longrightarrow> p \<in> V"
    and b: "\<forall>n \<in> set nodes. f (sn_id n) \<le> B"
  shows "n \<in> set nodes \<Longrightarrow> sn_id n \<in> V \<Longrightarrow> B - f (sn_id n) < fuel \<Longrightarrow>
     \<exists>t. add_filtered_node fuel nodes V F n = Some [t]
       \<and> item_ids t = insert (sn_id n) {d \<in> V. (d, sn_id n) \<in> (parent_rel nodes)\<^sup>+}
       \<and> item_faded_ids t
            = F \<inter> insert (sn_id n) {d \<in> V. (d, sn_id n) \<in> (parent_rel nodes)\<^sup>+}"
proof (induction fuel arbitrary: n)
  case 0
  then show ?case by simp
next
  case (Suc fuel)
  define K where "K = sort_by_id sn_id (filter (\<lambda>c. sn_id c \<in> V) (children_of nodes n))"
  define D where "D = (\<lambda>k. {d \<in> V. (d, k) \<in> (parent_rel nodes)\<^sup>+})"
  define g where "g = add_filtered_node fuel nodes V F"
  have K: "set K = {c \<in> set nodes. sn_id c \<in> V \<and> (sn_id c, sn_id n) \<in> parent_rel nodes}"
    unfolding K_def by (rule kids_set [OF d Suc.prems(1)])
  have ex: "\<forall>c \<in> set K. \<exists>t. g c = Some [t]
       \<and> item_ids t = insert (sn_id c) (D (sn_id c))
       \<and> item_faded_ids t = F \<inter> insert (sn_id c) (D (sn_id c))"
  proof
    fix c assume "c \<in> set K"
    with K have c: "c \<in> set nodes" "sn_id c \<in> V" "(sn_id c, sn_id n) \<in> parent_rel nodes"
      by auto
    from ranked_parent_rel [OF r c(3)] Suc.prems(1) have "f (sn_id n) < f (sn_id c)" by simp
    moreover from b c(1) have "f (sn_id c) \<le> B" by simp
    ultimately have "B - f (sn_id c) < fuel" using Suc.prems(3) by arith
    from Suc.IH [OF c(1) c(2) this]
    show "\<exists>t. g c = Some [t]
       \<and> item_ids t = insert (sn_id c) (D (sn_id c))
       \<and> item_faded_ids t = F \<inter> insert (sn_id c) (D (sn_id c))"
      unfolding g_def D_def .
  qed
  from bchoice [OF ex] obtain T where T: "\<forall>c \<in> set K. g c = Some [T c]
       \<and> item_ids (T c) = insert (sn_id c) (D (sn_id c))
       \<and> item_faded_ids (T c) = F \<inter> insert (sn_id c) (D (sn_id c))"
    by blast
  then have "map g K = map (\<lambda>c. Some [T c]) K"
    by simp
  then have th: "those (map g K) = Some (map (\<lambda>c. [T c]) K)"
    by (simp only: those_map_Some)
  have cc: "concat (map (\<lambda>c. [T c]) K) = map T K"
    by (induction K) simp_all
  define t where "t = TreeItem (sn_id n) (sn_id n \<in> F) (map T K)"
  from th cc Suc.prems(2) have res: "add_filtered_node (Suc fuel) nodes V F n = Some [t]"
    by (simp add: t_def g_def K_def)
  have U: "D (sn_id n) = (\<Union>c \<in> set K. insert (sn_id c) (D (sn_id c)))"
    unfolding K D_def by (rule desc_unfold [OF cl])
  from T have i1: "(\<Union>c \<in> set K. item_ids (T c)) = (\<Union>c \<in> set K. insert (sn_id c) (D (sn_id c)))"
    by (intro SUP_cong refl) simp
  from T have f1: "(\<Union>c \<in> set K. item_faded_ids (T c))
      = (\<Union>c \<in> set K. F \<inter> insert (sn_id c) (D (sn_id c)))"
    by (intro SUP_cong refl) simp
  have ids: "item_ids t = insert (sn_id n) (D (sn_id n))"
    by (simp add: t_def image_image i1 U [symmetric])
  have "(\<Union>c \<in> set K. F \<inter> insert (sn_id c) (D (sn_id c))) = F \<inter> D (sn_id n)"
    by (subst U) blast
  with f1 have fd: "item_faded_ids t = F \<inter> insert (sn_id n) (D (sn_id n))"
    by (auto simp: t_def image_image)
  from res ids fd show ?case
    unfolding D_def by blast
qed


text \<open>The two sets of the filter, and the tree built from them.\<close>

lemma filter_sets_result:
  assumes "filter_sets_of cbs nodes = Some fs"
  shows "visible_nodes fs
           = set (matching_ids cbs nodes) \<union> (parent_rel nodes)\<^sup>+ `` set (matching_ids cbs nodes)"
    and "\<forall>c p. c \<in> visible_nodes fs \<and> (c, p) \<in> parent_rel nodes \<longrightarrow> p \<in> visible_nodes fs"
    and "faded_nodes fs = visible_nodes fs - set (matching_ids cbs nodes)"
proof -
  from assms obtain A where A: "collect_ancestors nodes (matching_ids cbs nodes) = Some A"
    and fs: "fs = \<lparr>visible_nodes = set (matching_ids cbs nodes) \<union> A,
                  faded_nodes = A - set (matching_ids cbs nodes)\<rparr>"
    by (auto simp: filter_sets_of_def Let_def split: option.splits)
  from collect_ancestors_result [OF A]
  have Ae: "A = (parent_rel nodes)\<^sup>+ `` set (matching_ids cbs nodes)" .
  from fs Ae show v: "visible_nodes fs
           = set (matching_ids cbs nodes) \<union> (parent_rel nodes)\<^sup>+ `` set (matching_ids cbs nodes)"
    by simp
  show "\<forall>c p. c \<in> visible_nodes fs \<and> (c, p) \<in> parent_rel nodes \<longrightarrow> p \<in> visible_nodes fs"
    unfolding v by (auto intro: trancl_into_trancl)
  from fs show "faded_nodes fs = visible_nodes fs - set (matching_ids cbs nodes)"
    by auto
qed

lemma filter_sets_terminates:
  assumes "ranked f nodes"
  shows "filter_sets_of cbs nodes \<noteq> None"
  using collect_ancestors_terminates [OF assms, of "matching_ids cbs nodes"]
  by (auto simp: filter_sets_of_def Let_def split: option.splits)

lemma matching_loaded: "set (matching_ids cbs nodes) \<subseteq> sn_id ` set nodes"
  by (auto simp: matching_ids_def)

lemma rank_bound: "\<exists>B. \<forall>n \<in> set nodes. f (sn_id n) \<le> (B::nat)"
proof (induction nodes)
  case Nil
  then show ?case by simp
next
  case (Cons a nodes)
  then obtain B where "\<forall>n \<in> set nodes. f (sn_id n) \<le> B" by blast
  then have "\<forall>n \<in> set (a # nodes). f (sn_id n) \<le> max B (f (sn_id a))"
    by (auto simp: max_def)
  then show ?case by blast
qed

lemma visible_under_root:
  assumes d: "distinct (map sn_id nodes)"
    and r: "ranked f nodes"
    and cl: "\<forall>c p. c \<in> V \<and> (c, p) \<in> parent_rel nodes \<longrightarrow> p \<in> V"
  shows "n \<in> set nodes \<Longrightarrow> sn_id n \<in> V \<Longrightarrow>
     \<exists>t \<in> set nodes. (\<not> py_truthy (sn_parent_id t) \<or> nodes_get nodes (the (sn_parent_id t)) = None)
        \<and> sn_id t \<in> V
        \<and> (sn_id n = sn_id t \<or> (sn_id n, sn_id t) \<in> (parent_rel nodes)\<^sup>+)"
proof (induction "f (sn_id n)" arbitrary: n rule: less_induct)
  case less
  show ?case
  proof (cases "\<not> py_truthy (sn_parent_id n) \<or> nodes_get nodes (the (sn_parent_id n)) = None")
    case True
    with less.prems show ?thesis by blast
  next
    case False
    then obtain m where tr: "py_truthy (sn_parent_id n)"
      and m: "nodes_get nodes (the (sn_parent_id n)) = Some m"
      by auto
    from m have mi: "m \<in> set nodes" "sn_id m = the (sn_parent_id n)"
      using nodes_get_Some by auto
    from tr parent_rel_node [OF d less.prems(1), of "sn_id m"] mi
    have e: "(sn_id n, sn_id m) \<in> parent_rel nodes"
      by (auto simp: py_truthy_def split: option.splits)
    from cl e less.prems(2) have mv: "sn_id m \<in> V" by blast
    from ranked_parent_rel [OF r e] mi(1) have "f (sn_id m) < f (sn_id n)" by simp
    from less.hyps [OF this mi(1) mv] obtain t where t: "t \<in> set nodes"
      "\<not> py_truthy (sn_parent_id t) \<or> nodes_get nodes (the (sn_parent_id t)) = None"
      "sn_id t \<in> V"
      "sn_id m = sn_id t \<or> (sn_id m, sn_id t) \<in> (parent_rel nodes)\<^sup>+"
      by blast
    from t(4) e have "(sn_id n, sn_id t) \<in> (parent_rel nodes)\<^sup>+"
      by (auto intro: trancl_into_trancl2)
    with t show ?thesis by blast
  qed
qed

lemma apply_filters_shows:
  assumes d: "distinct (map sn_id nodes)"
    and r: "ranked f nodes"
  shows "\<exists>N. \<forall>fuel \<ge> N. \<exists>fs items.
       apply_filters fuel cbs nodes = Some (fs, items)
     \<and> filter_sets_of cbs nodes = Some fs
     \<and> \<Union> (item_ids ` set items) = visible_nodes fs \<inter> sn_id ` set nodes
     \<and> \<Union> (item_faded_ids ` set items) = faded_nodes fs \<inter> sn_id ` set nodes"
proof -
  from filter_sets_terminates [OF r] obtain fs where fs: "filter_sets_of cbs nodes = Some fs"
    by blast
  define V where "V = visible_nodes fs"
  define F where "F = faded_nodes fs"
  from filter_sets_result(2) [OF fs]
  have cl: "\<forall>c p. c \<in> V \<and> (c, p) \<in> parent_rel nodes \<longrightarrow> p \<in> V"
    unfolding V_def .
  from filter_sets_result(3) [OF fs] have FV: "F \<subseteq> V"
    unfolding V_def F_def by auto
  from rank_bound obtain B where b: "\<forall>n \<in> set nodes. f (sn_id n) \<le> B" by blast
  define Rs where "Rs = sort_by_id sn_id
       (filter (\<lambda>n. (\<not> py_truthy (sn_parent_id n) \<or> nodes_get nodes (the (sn_parent_id n)) = None)
                    \<and> sn_id n \<in> V) nodes)"
  define D where "D = (\<lambda>k. {d \<in> V. (d, k) \<in> (parent_rel nodes)\<^sup>+})"
  have Rset: "set Rs = {n \<in> set nodes.
       (\<not> py_truthy (sn_parent_id n) \<or> nodes_get nodes (the (sn_parent_id n)) = None)
       \<and> sn_id n \<in> V}"
    by (auto simp: Rs_def set_sort_by_id)
  have "\<exists>items. apply_filters fuel cbs nodes = Some (fs, items)
     \<and> \<Union> (item_ids ` set items) = V \<inter> sn_id ` set nodes
     \<and> \<Union> (item_faded_ids ` set items) = F \<inter> sn_id ` set nodes" if fuel: "Suc B \<le> fuel" for fuel
  proof -
    define g where "g = add_filtered_node fuel nodes V F"
    have ex: "\<forall>n \<in> set Rs. \<exists>t. g n = Some [t]
        \<and> item_ids t = insert (sn_id n) (D (sn_id n))
        \<and> item_faded_ids t = F \<inter> insert (sn_id n) (D (sn_id n))"
    proof
      fix n assume "n \<in> set Rs"
      with Rset have n: "n \<in> set nodes" "sn_id n \<in> V" by auto
      from fuel have "B - f (sn_id n) < fuel" by arith
      from add_filtered_node_subtree [OF d r cl b n this, of F]
      show "\<exists>t. g n = Some [t]
        \<and> item_ids t = insert (sn_id n) (D (sn_id n))
        \<and> item_faded_ids t = F \<inter> insert (sn_id n) (D (sn_id n))"
        unfolding g_def D_def .
    qed
    from bchoice [OF ex] obtain T where T: "\<forall>n \<in> set Rs. g n = Some [T n]
        \<and> item_ids (T n) = insert (sn_id n) (D (sn_id n))
        \<and> item_faded_ids (T n) = F \<inter> insert (sn_id n) (D (sn_id n))"
      by blast
    then have "map g Rs = map (\<lambda>n. Some [T n]) Rs" by simp
    then have th: "those (map g Rs) = Some (map (\<lambda>n. [T n]) Rs)"
      by (simp only: those_map_Some)
    have cc: "concat (map (\<lambda>n. [T n]) Rs) = map T Rs"
      by (induction Rs) simp_all
    from fs th cc have res: "apply_filters fuel cbs nodes = Some (fs, map T Rs)"
      by (simp add: apply_filters_def Let_def g_def Rs_def V_def F_def)
    from T have i1: "(\<Union>n \<in> set Rs. item_ids (T n)) = (\<Union>n \<in> set Rs. insert (sn_id n) (D (sn_id n)))"
      by (intro SUP_cong refl) simp
    from T have f1: "(\<Union>n \<in> set Rs. item_faded_ids (T n))
        = (\<Union>n \<in> set Rs. F \<inter> insert (sn_id n) (D (sn_id n)))"
      by (intro SUP_cong refl) simp
    have cover: "(\<Union>n \<in> set Rs. insert (sn_id n) (D (sn_id n))) = V \<inter> sn_id ` set nodes"
    proof (intro set_eqI iffI)
      fix x assume "x \<in> (\<Union>n \<in> set Rs. insert (sn_id n) (D (sn_id n)))"
      then obtain n where n: "n \<in> set Rs" and x: "x = sn_id n \<or> x \<in> D (sn_id n)" by auto
      from x show "x \<in> V \<inter> sn_id ` set nodes"
      proof
        assume "x = sn_id n"
        with n Rset show ?thesis by auto
      next
        assume "x \<in> D (sn_id n)"
        then have "x \<in> V" "(x, sn_id n) \<in> (parent_rel nodes)\<^sup>+" by (auto simp: D_def)
        moreover from this(2) obtain y where "(x, y) \<in> parent_rel nodes"
          by (auto dest: tranclD)
        ultimately show ?thesis using parent_rel_dom by fastforce
      qed
    next
      fix x assume "x \<in> V \<inter> sn_id ` set nodes"
      then obtain n where n: "n \<in> set nodes" "sn_id n = x" "x \<in> V" by auto
      from visible_under_root [OF d r cl n(1)] n(2,3)
      obtain t where t: "t \<in> set nodes"
        "\<not> py_truthy (sn_parent_id t) \<or> nodes_get nodes (the (sn_parent_id t)) = None"
        "sn_id t \<in> V" "x = sn_id t \<or> (x, sn_id t) \<in> (parent_rel nodes)\<^sup>+"
        by auto
      from t(1-3) Rset have "t \<in> set Rs" by simp
      moreover from t(4) n(3) have "x \<in> insert (sn_id t) (D (sn_id t))"
        by (auto simp: D_def)
      ultimately show "x \<in> (\<Union>n \<in> set Rs. insert (sn_id n) (D (sn_id n)))" by blast
    qed
    have "(\<Union>n \<in> set Rs. F \<inter> insert (sn_id n) (D (sn_id n)))
        = F \<inter> (\<Union>n \<in> set Rs. insert (sn_id n) (D (sn_id n)))"
      by blast
    also have "\<dots> = F \<inter> sn_id ` set nodes"
      using cover FV by auto
    finally have fcover: "(\<Union>n \<in> set Rs. F \<inter> insert (sn_id n) (D (sn_id n)))
        = F \<inter> sn_id ` set nodes" .
    have a: "\<Union> (item_ids ` set (map T Rs)) = V \<inter> sn_id ` set nodes"
      using i1 cover by (simp add: image_image)
    have b': "\<Union> (item_faded_ids ` set (map T Rs)) = F \<inter> sn_id ` set nodes"
      using f1 fcover by (simp add: image_image)
    from res a b' show ?thesis by blast
  qed
  note inner = this
  show ?thesis
  proof (intro exI [of _ "Suc B"] allI impI)
    fix fuel assume "Suc B \<le> fuel"
    from inner [OF this] obtain items where
      "apply_filters fuel cbs nodes = Some (fs, items)"
      "\<Union> (item_ids ` set items) = V \<inter> sn_id ` set nodes"
      "\<Union> (item_faded_ids ` set items) = F \<inter> sn_id ` set nodes"
      by blast
    with fs show "\<exists>fs items.
       apply_filters fuel cbs nodes = Some (fs, items)
     \<and> filter_sets_of cbs nodes = Some fs
     \<and> \<Union> (item_ids ` set items) = visible_nodes fs \<inter> sn_id ` set nodes
     \<and> \<Union> (item_faded_ids ` set items) = faded_nodes fs \<inter> sn_id ` set nodes"
      unfolding V_def F_def by (intro exI [of _ fs] exI [of _ items]) simp
  qed
qed

text \<open>
  C10. Whenever the filter returns its two sets, the visible set is the set of matching
  ids together with all their ancestors, so it contains the parent id of each of its
  members, and the faded set is the visible set without the matching ids. The filter
  returns whenever the parent ids form no cycle (they admit a rank), and then, the ids
  of the loaded nodes being distinct as dictionary keys are, the tree it builds with a
  sufficient depth bound shows exactly the visible ids that are loaded nodes, and marks
  as faded exactly those of them in the faded set.
\<close>

theorem filter_shows_matches_and_ancestors:
  "(filter_sets_of cbs nodes = Some fs \<longrightarrow>
       visible_nodes fs
         = set (matching_ids cbs nodes) \<union> (parent_rel nodes)\<^sup>+ `` set (matching_ids cbs nodes)
     \<and> (\<forall>c p. c \<in> visible_nodes fs \<and> (c, p) \<in> parent_rel nodes \<longrightarrow> p \<in> visible_nodes fs)
     \<and> faded_nodes fs = visible_nodes fs - set (matching_ids cbs nodes))
   \<and> (ranked f nodes \<longrightarrow> filter_sets_of cbs nodes \<noteq> None)
   \<and> (ranked f nodes \<and> distinct (map sn_id nodes) \<longrightarrow>
        (\<exists>N. \<forall>fuel \<ge> N. \<exists>fs items.
            apply_filters fuel cbs nodes = Some (fs, items)
          \<and> filter_sets_of cbs nodes = Some fs
          \<and> \<Union> (item_ids ` set items) = visible_nodes fs \<inter> sn_id ` set nodes
          \<and> \<Union> (item_faded_ids ` set items) = faded_nodes fs \<inter> sn_id ` set nodes))"
proof (intro conjI impI)
  assume a: "filter_sets_of cbs nodes = Some fs"
  show "visible_nodes fs
         = set (matching_ids cbs nodes) \<union> (parent_rel nodes)\<^sup>+ `` set (matching_ids cbs nodes)"
    by (rule filter_sets_result(1) [OF a])
  show "\<forall>c p. c \<in> visible_nodes fs \<and> (c, p) \<in> parent_rel nodes \<longrightarrow> p \<in> visible_nodes fs"
    by (rule filter_sets_result(2) [OF a])
  show "faded_nodes fs = visible_nodes fs - set (matching_ids cbs nodes)"
    by (rule filter_sets_result(3) [OF a])
next
  assume "ranked f nodes"
  then show "filter_sets_of cbs nodes \<noteq> None"
    by (rule filter_sets_terminates)
next
  assume "ranked f nodes \<and> distinct (map sn_id nodes)"
  then have r: "ranked f nodes" and d: "distinct (map sn_id nodes)" by simp_all
  show "\<exists>N. \<forall>fuel \<ge> N. \<exists>fs items.
            apply_filters fuel cbs nodes = Some (fs, items)
          \<and> filter_sets_of cbs nodes = Some fs
          \<and> \<Union> (item_ids ` set items) = visible_nodes fs \<inter> sn_id ` set nodes
          \<and> \<Union> (item_faded_ids ` set items) = faded_nodes fs \<inter> sn_id ` set nodes"
    by (rule apply_filters_shows [OF d r])
qed

theorem filter_shows_matches_and_ancestors_witness:
  "filter_sets_of testing_only gui_nodes
     = Some \<lparr>visible_nodes = {''1.1'', ''1'', ''root''}, faded_nodes = {''1'', ''root''}\<rparr>
   \<and> {''1.1'', ''1'', ''root''}
       = set (matching_ids testing_only gui_nodes)
           \<union> (parent_rel gui_nodes)\<^sup>+ `` set (matching_ids testing_only gui_nodes)
   \<and> {''1'', ''root''} = {''1.1'', ''1'', ''root''} - set (matching_ids testing_only gui_nodes)
   \<and> (\<exists>N fs items. apply_filters N testing_only gui_nodes = Some (fs, items)
          \<and> \<Union> (item_ids ` set items) = visible_nodes fs \<inter> sn_id ` set gui_nodes
          \<and> \<Union> (item_faded_ids ` set items) = faded_nodes fs \<inter> sn_id ` set gui_nodes)
   \<and> apply_filters 5 testing_only gui_nodes
       = Some (\<lparr>visible_nodes = {''1.1'', ''1'', ''root''}, faded_nodes = {''1'', ''root''}\<rparr>,
               [TreeItem ''root'' True [TreeItem ''1'' True [TreeItem ''1.1'' False []]]])"
proof -
  let ?fs = "\<lparr>visible_nodes = {''1.1'', ''1'', ''root''}, faded_nodes = {''1'', ''root''}\<rparr>"
  have r: "ranked gui_rank gui_nodes"
    by (simp add: ranked_def gui_nodes_def gui_rank_def nodes_get_def py_truthy_def)
  have d: "distinct (map sn_id gui_nodes)"
    by (simp add: gui_nodes_def)
  have e: "filter_sets_of testing_only gui_nodes = Some ?fs"
    by code_simp
  have t: "apply_filters 5 testing_only gui_nodes
       = Some (?fs, [TreeItem ''root'' True [TreeItem ''1'' True [TreeItem ''1.1'' False []]]])"
    by code_simp
  note th = filter_shows_matches_and_ancestors [of testing_only gui_nodes ?fs gui_rank]
  note c1 = th [THEN conjunct1, THEN mp, OF e]
  have v: "{''1.1'', ''1'', ''root''}
       = set (matching_ids testing_only gui_nodes)
           \<union> (parent_rel gui_nodes)\<^sup>+ `` set (matching_ids testing_only gui_nodes)"
    using c1 [THEN conjunct1] by (simp only: filter_sets.select_convs)
  have f: "{''1'', ''root''} = {''1.1'', ''1'', ''root''} - set (matching_ids testing_only gui_nodes)"
    using c1 [THEN conjunct2, THEN conjunct2] by (simp only: filter_sets.select_convs)
  from th [THEN conjunct2, THEN conjunct2, THEN mp, OF conjI [OF r d]]
  obtain N where N: "\<forall>fuel \<ge> N. \<exists>fs items.
            apply_filters fuel testing_only gui_nodes = Some (fs, items)
          \<and> filter_sets_of testing_only gui_nodes = Some fs
          \<and> \<Union> (item_ids ` set items) = visible_nodes fs \<inter> sn_id ` set gui_nodes
          \<and> \<Union> (item_faded_ids ` set items) = faded_nodes fs \<inter> sn_id ` set gui_nodes" ..
  from N [rule_format, OF le_refl] obtain fs where "\<exists>items.
            apply_filters N testing_only gui_nodes = Some (fs, items)
          \<and> filter_sets_of testing_only gui_nodes = Some fs
          \<and> \<Union> (item_ids ` set items) = visible_nodes fs \<inter> sn_id ` set gui_nodes
          \<and> \<Union> (item_faded_ids ` set items) = faded_nodes fs \<inter> sn_id ` set gui_nodes" ..
  then obtain items where p: "apply_filters N testing_only gui_nodes = Some (fs, items)
          \<and> filter_sets_of testing_only gui_nodes = Some fs
          \<and> \<Union> (item_ids ` set items) = visible_nodes fs \<inter> sn_id ` set gui_nodes
          \<and> \<Union> (item_faded_ids ` set items) = faded_nodes fs \<inter> sn_id ` set gui_nodes" ..
  have x: "\<exists>N fs items.
            apply_filters N testing_only gui_nodes = Some (fs, items)
          \<and> \<Union> (item_ids ` set items) = visible_nodes fs \<inter> sn_id ` set gui_nodes
          \<and> \<Union> (item_faded_ids ` set items) = faded_nodes fs \<inter> sn_id ` set gui_nodes"
    by (rule exI [of _ N], rule exI [of _ fs], rule exI [of _ items], intro conjI)
       (rule p [THEN conjunct1] p [THEN conjunct2, THEN conjunct2, THEN conjunct1]
          p [THEN conjunct2, THEN conjunct2, THEN conjunct2])+
  show ?thesis
    by (intro conjI e v f x t)
qed

end
